theory Spec2Isabelle
  imports Complex_Main "HOL-Library.Log_Nat"
begin

section \<open>JavaScript numbers\<close>

text \<open>
  A JavaScript number is an IEEE 754 double: zero, or an integer of less than 53 bits
  times a power of two. The range of the exponent is left unbounded here: overflow to
  \<^verbatim>\<open>Infinity\<close> (beyond 1.8e308), subnormal numbers (below 2.3e-308) and \<^verbatim>\<open>NaN\<close> are not
  modelled; the wheel does not reach them.
\<close>

definition is_double :: "real \<Rightarrow> bool" where
  "is_double x \<longleftrightarrow> (\<exists>m e. \<bar>m\<bar> < 2 ^ 53 \<and> x = of_int m * 2 powi e)"

text \<open>
  Every arithmetic operation returns the double nearest to the exact result, ties going
  to the even mantissa. \<open>expo x\<close> is the exponent \<open>e\<close> with \<open>2^e \<le> x < 2^(e+1)\<close> of a
  positive \<open>x\<close>, \<open>rne\<close> rounds to the nearest integer, ties to even, and \<open>fl\<close> rounds a
  real to 53 significant bits.
\<close>

definition expo :: "real \<Rightarrow> int" where
  "expo x = (if 1 \<le> x then bitlen \<lfloor>x\<rfloor> - 1 else - bitlen (\<lceil>1 / x\<rceil> - 1))"

definition rne :: "real \<Rightarrow> int" where
  "rne y = (let f = \<lfloor>y\<rfloor>; d = y - of_int f
            in if d < 1 / 2 then f
               else if 1 / 2 < d then f + 1
               else if even f then f else f + 1)"

definition fl :: "real \<Rightarrow> real" where
  "fl x = (if x = 0 then 0
           else let u = 2 powi (expo \<bar>x\<bar> - 52) in of_int (rne (x / u)) * u)"

text \<open>The type of doubles: \<open>val\<close> is the real a double stands for.\<close>

typedef double = "{x. is_double x}"
  morphisms val dbl
  by (auto simp add: is_double_def intro!: exI[of _ 0])

text \<open>
  A numeric literal, or an integer such as \<^verbatim>\<open>themes.length\<close>, is the nearest double; the
  operators \<^verbatim>\<open>+\<close>, \<^verbatim>\<open>-\<close>, \<^verbatim>\<open>*\<close> and \<^verbatim>\<open>/\<close> round their exact result. Division is only used
  with a divisor that is not zero (see \<open>selectedIndex\<close>).
\<close>

definition lit :: "real \<Rightarrow> double" where
  "lit x = dbl (fl x)"

definition dadd :: "double \<Rightarrow> double \<Rightarrow> double" where
  "dadd a b = dbl (fl (val a + val b))"

definition dsub :: "double \<Rightarrow> double \<Rightarrow> double" where
  "dsub a b = dbl (fl (val a - val b))"

definition dmul :: "double \<Rightarrow> double \<Rightarrow> double" where
  "dmul a b = dbl (fl (val a * val b))"

definition ddiv :: "double \<Rightarrow> double \<Rightarrow> double" where
  "ddiv a b = dbl (fl (val a / val b))"

text \<open>
  \<^verbatim>\<open>%\<close> on numbers is the remainder of the truncated division: its sign follows the
  dividend. \<open>trunc\<close> rounds towards zero. The remainder of two doubles is a double, so
  that the rounding in \<open>drem\<close> changes nothing (lemma \<open>js_rem_double\<close> shows it for the
  divisor 360 and a non-negative dividend, the case of the wheel).
\<close>

definition trunc :: "real \<Rightarrow> int" where
  "trunc x = (if 0 \<le> x then \<lfloor>x\<rfloor> else \<lceil>x\<rceil>)"

definition js_rem :: "real \<Rightarrow> real \<Rightarrow> real" where
  "js_rem x y = x - y * of_int (trunc (x / y))"

definition drem :: "double \<Rightarrow> double \<Rightarrow> double" where
  "drem a b = dbl (fl (js_rem (val a) (val b)))"

text \<open>
  The mathematical modulo (the result lies in \<open>[0, y)\<close> for positive \<open>y\<close>), and the same on
  doubles, for comparison.
\<close>

definition math_mod :: "real \<Rightarrow> real \<Rightarrow> real" where
  "math_mod x y = x - y * of_int \<lfloor>x / y\<rfloor>"

definition dmod :: "double \<Rightarrow> double \<Rightarrow> double" where
  "dmod a b = dbl (fl (math_mod (val a) (val b)))"


text \<open>
  \<^verbatim>\<open>xs[i]\<close> for an integral index: \<^verbatim>\<open>undefined\<close> (here \<open>None\<close>) outside the array.
\<close>

definition js_index :: "'a list \<Rightarrow> int \<Rightarrow> 'a option" where
  "js_index xs i = (if 0 \<le> i \<and> i < int (length xs) then Some (xs ! nat i) else None)"

section \<open>The lucky wheel (components/LuckyWheel)\<close>

text \<open>
  \<^verbatim>\<open>const [rotation, setRotation] = useState(0);\<close>
  \<^verbatim>\<open>const [isSpinning, setIsSpinning] = useState(false);\<close>
  The two state cells of the component, together with the callbacks that
  \<^verbatim>\<open>setTimeout\<close> has scheduled and not yet run (each one holds the \<^verbatim>\<open>totalRotation\<close> it
  closed over) and the arguments that \<^verbatim>\<open>onSelect\<close> has been called with.
\<close>

record 't wheel =
  rotation :: double
  isSpinning :: bool
  timers :: "double list"
  selections :: "'t option list"

definition initial_wheel :: "'t wheel" where
  "initial_wheel = \<lparr>rotation = lit 0, isSpinning = False, timers = [], selections = []\<rparr>"

text \<open>
  \<^verbatim>\<open>const sliceAngle = 360 / themes.length;\<close>
  For an empty list of themes this is \<^verbatim>\<open>Infinity\<close>, which the type of doubles here does not
  hold; \<open>selectedIndex\<close> treats that case apart.
\<close>

definition sliceAngle :: "nat \<Rightarrow> double" where
  "sliceAngle n = ddiv (lit 360) (lit (real n))"

text \<open>
  The index computed in the timeout callback:
  \<^verbatim>\<open>const actualRotation = totalRotation % 360;\<close>
  \<^verbatim>\<open>const index = Math.floor(((360 - actualRotation) % 360) / sliceAngle);\<close>
  For an empty theme list the quotient by \<^verbatim>\<open>Infinity\<close> is 0.
\<close>

definition landingAngle :: "double \<Rightarrow> double" where
  "landingAngle totalRotation =
     (let actualRotation = drem totalRotation (lit 360)
      in drem (dsub (lit 360) actualRotation) (lit 360))"

definition selectedIndex :: "double \<Rightarrow> nat \<Rightarrow> int" where
  "selectedIndex totalRotation n =
     (if n = 0 then 0 else \<lfloor>val (ddiv (landingAngle totalRotation) (sliceAngle n))\<rfloor>)"

text \<open>
  \<^verbatim>\<open>spin\<close>, with the two results of \<^verbatim>\<open>Math.random()\<close> as \<open>r1\<close> and \<open>r2\<close>:
  \<^verbatim>\<open>if (isSpinning) return;\<close>
  \<^verbatim>\<open>const extraSpins = 5 + Math.random() * 5;\<close>
  \<^verbatim>\<open>const randomOffset = Math.random() * 360;\<close>
  \<^verbatim>\<open>const totalRotation = rotation + (extraSpins * 360) + randomOffset;\<close>
  \<^verbatim>\<open>setIsSpinning(true); setRotation(totalRotation); setTimeout(..., 4000);\<close>
\<close>

definition extraSpins :: "double \<Rightarrow> double" where
  "extraSpins r1 = dadd (lit 5) (dmul r1 (lit 5))"

definition randomOffset :: "double \<Rightarrow> double" where
  "randomOffset r2 = dmul r2 (lit 360)"

definition totalRotation :: "double \<Rightarrow> double \<Rightarrow> double \<Rightarrow> double" where
  "totalRotation rot turns offset = dadd (dadd rot (dmul turns (lit 360))) offset"

definition spin :: "double \<Rightarrow> double \<Rightarrow> 't wheel \<Rightarrow> 't wheel" where
  "spin r1 r2 w =
     (if isSpinning w then w
      else let tr = totalRotation (rotation w) (extraSpins r1) (randomOffset r2)
           in w\<lparr>isSpinning := True, rotation := tr, timers := timers w @ [tr]\<rparr>)"

text \<open>
  The callback given to \<^verbatim>\<open>setTimeout(..., 4000)\<close>: it clears \<^verbatim>\<open>isSpinning\<close> and calls
  \<^verbatim>\<open>onSelect(themes[index])\<close>.
\<close>

definition spin_timeout :: "'t list \<Rightarrow> 't wheel \<Rightarrow> 't wheel" where
  "spin_timeout themes w =
     (case timers w of
        [] \<Rightarrow> w
      | tr # rest \<Rightarrow>
          w\<lparr>isSpinning := False, timers := rest,
            selections := selections w @ [js_index themes (selectedIndex tr (length themes))]\<rparr>)"

text \<open>The operations on the wheel's state, and a run of them in order.\<close>

datatype wheel_op = Spin double double | Timeout

fun wheel_step :: "'t list \<Rightarrow> 't wheel \<Rightarrow> wheel_op \<Rightarrow> 't wheel" where
  "wheel_step themes w (Spin r1 r2) = spin r1 r2 w"
| "wheel_step themes w Timeout = spin_timeout themes w"

definition wheel_run :: "'t list \<Rightarrow> wheel_op list \<Rightarrow> 't wheel \<Rightarrow> 't wheel" where
  "wheel_run themes ops w = foldl (wheel_step themes) w ops"

text \<open>\<^verbatim>\<open>Math.random()\<close> returns a number in \<open>[0, 1)\<close>.\<close>

fun random_draws :: "wheel_op \<Rightarrow> bool" where
  "random_draws (Spin r1 r2) = (0 \<le> val r1 \<and> val r1 < 1 \<and> 0 \<le> val r2 \<and> val r2 < 1)"
| "random_draws Timeout = True"

text \<open>
  The resolution formula in the words of the specification, with the mathematical modulo
  and the arithmetic of the program:
  \<open>normalizedAngle = newCumulative mod 360\<close>,
  \<open>selectedIndex = floor(((360 - normalizedAngle) mod 360) / (360/N))\<close>.
\<close>

definition spec_selectedIndex :: "double \<Rightarrow> nat \<Rightarrow> int" where
  "spec_selectedIndex cumulative N =
     (let normalizedAngle = dmod cumulative (lit 360)
      in \<lfloor>val (ddiv (dmod (dsub (lit 360) normalizedAngle) (lit 360))
                   (ddiv (lit 360) (lit (real N))))\<rfloor>)"

section \<open>JavaScript strings\<close>

abbreviation NL :: string where
  "NL \<equiv> [CHR 0x0A]"

text \<open>
  A value of type \<^verbatim>\<open>string | undefined\<close> (or \<^verbatim>\<open>string | null\<close>) is a \<open>string option\<close>.
  It is truthy when it is a non-empty string; \<^verbatim>\<open>a || b\<close> is \<^verbatim>\<open>a\<close> when \<^verbatim>\<open>a\<close> is truthy and
  \<^verbatim>\<open>b\<close> otherwise.
\<close>

definition truthy :: "string option \<Rightarrow> bool" where
  "truthy v = (case v of None \<Rightarrow> False | Some s \<Rightarrow> s \<noteq> [])"

definition js_or :: "string option \<Rightarrow> string option \<Rightarrow> string option" where
  "js_or a b = (if truthy a then a else b)"

section \<open>The agents (types, services/geminiService, App)\<close>

text \<open>
  \<^verbatim>\<open>interface AgentConfig\<close>. The fields \<^verbatim>\<open>id\<close> and \<^verbatim>\<open>output\<close> are \<open>id_agent\<close> and
  \<open>output_agent\<close> here; \<^verbatim>\<open>contextType\<close> is kept as the string it is at run time; the
  optional \<^verbatim>\<open>output\<close> is \<open>None\<close> when absent.
\<close>

record AgentConfig =
  id_agent :: int
  name :: string
  prompt :: string
  model :: string
  maxTokens :: int
  temperature :: real
  contextType :: string
  output_agent :: "string option"
  isLoading :: bool

text \<open>
  The hosted model is outside the program. What \<^verbatim>\<open>ai.models.generateContent\<close> is called
  with is a \<open>request\<close>; its promise either rejects with an error (its \<^verbatim>\<open>message\<close> is
  kept) or resolves with a response (its \<^verbatim>\<open>text\<close>, which may be absent, is kept).
\<close>

record request =
  req_model :: string
  req_contents :: string
  req_maxOutputTokens :: int
  req_thinkingConfig :: "int option"

datatype outcome = Rejected string | Resolved "string option"

text \<open>
  The world the program runs in: \<^verbatim>\<open>process.env.API_KEY\<close>, and the answer of the hosted
  model to a request made with a given key, which may depend on how many requests were
  made before it.
\<close>

record world =
  env_API_KEY :: "string option"
  generateContent :: "nat \<Rightarrow> string \<Rightarrow> request \<Rightarrow> outcome"

text \<open>
  The history of a run, kept to state what was called and in which order: every call of
  \<^verbatim>\<open>runGeminiAgent\<close> with its arguments, every request sent with
  \<^verbatim>\<open>generateContent\<close>, and the settling of the promise of \<^verbatim>\<open>runGeminiAgent\<close>
  (\<open>Inl\<close>: rejected with that message, \<open>Inr\<close>: resolved with that string).
\<close>

datatype event =
    Invoked string string int string "string option"
  | Requested request
  | Settled "string + string"

fun is_Invoked :: "event \<Rightarrow> bool" where
  "is_Invoked (Invoked p m t c k) = True"
| "is_Invoked _ = False"

fun is_Requested :: "event \<Rightarrow> bool" where
  "is_Requested (Requested q) = True"
| "is_Requested _ = False"

definition requests_before :: "event list \<Rightarrow> nat" where
  "requests_before tr = length (filter is_Requested tr)"

text \<open>
  \<^verbatim>\<open>getClient\<close>:
  \<^verbatim>\<open>const apiKey = userKey || process.env.API_KEY;\<close>
  \<^verbatim>\<open>if (!apiKey) { throw new Error("API Key is missing. ..."); }\<close>
  The client is represented by the key it was made with.
\<close>

definition getClient :: "world \<Rightarrow> string option \<Rightarrow> string + string" where
  "getClient W userKey =
     (let apiKey = js_or userKey (env_API_KEY W)
      in if \<not> truthy apiKey
         then Inl ''API Key is missing. Please provide it in settings or environment.''
         else Inr (the apiKey))"

text \<open>
  The request built by \<^verbatim>\<open>runGeminiAgent\<close>:
  \<^verbatim>\<open>if (modelId === 'gemini-2.5-flash-thinking') { actualModel = 'gemini-2.5-flash'; thinkingBudget = 1024; }\<close>
  \<^verbatim>\<open>contents: `Context:\n${context}\n\nTask:\n${prompt}`\<close>
  \<^verbatim>\<open>config: { maxOutputTokens: maxTokens, thinkingConfig: thinkingBudget > 0 ? { thinkingBudget } : undefined }\<close>
\<close>

definition agent_request :: "string \<Rightarrow> string \<Rightarrow> int \<Rightarrow> string \<Rightarrow> request" where
  "agent_request prompt' modelId maxTokens' context =
     (let actualModel = (if modelId = ''gemini-2.5-flash-thinking'' then ''gemini-2.5-flash'' else modelId);
          thinkingBudget = (if modelId = ''gemini-2.5-flash-thinking'' then 1024 else (0::int))
      in \<lparr>req_model = actualModel,
          req_contents = ''Context:'' @ NL @ context @ NL @ NL @ ''Task:'' @ NL @ prompt',
          req_maxOutputTokens = maxTokens',
          req_thinkingConfig = (if thinkingBudget > 0 then Some thinkingBudget else None)\<rparr>)"

text \<open>
  \<^verbatim>\<open>runGeminiAgent(prompt, modelId, maxTokens, context, userKey)\<close>. The result is \<open>Inl\<close> the
  message of the error the promise rejects with, or \<open>Inr\<close> the string it resolves with:
  \<^verbatim>\<open>return response.text || "No output generated.";\<close>
\<close>

definition runGeminiAgent ::
  "world \<Rightarrow> string \<Rightarrow> string \<Rightarrow> int \<Rightarrow> string \<Rightarrow> string option \<Rightarrow> event list
     \<Rightarrow> (string + string) \<times> event list" where
  "runGeminiAgent W prompt' modelId maxTokens' context userKey tr =
     (let tr1 = tr @ [Invoked prompt' modelId maxTokens' context userKey]
      in case getClient W userKey of
           Inl msg \<Rightarrow> (Inl msg, tr1 @ [Settled (Inl msg)])
         | Inr ai \<Rightarrow>
             (let req = agent_request prompt' modelId maxTokens' context;
                  tr2 = tr1 @ [Requested req]
              in case generateContent W (requests_before tr) ai req of
                   Rejected msg \<Rightarrow> (Inl msg, tr2 @ [Settled (Inl msg)])
                 | Resolved text \<Rightarrow>
                     (let result = the (js_or text (Some ''No output generated.''))
                      in (Inr result, tr2 @ [Settled (Inr result)]))))"

text \<open>
  The part of the state of \<^verbatim>\<open>App\<close> that the agent handlers read and write, and the
  history of the run.
\<close>

record app =
  agents :: "AgentConfig list"
  error :: "string option"
  doc1 :: string
  doc2 :: string
  apiKey :: string
  trace :: "event list"

text \<open>
  The context handed to the model (\<^verbatim>\<open>handleRunAgent\<close>):
  \<^verbatim>\<open>if (agent.contextType === 'doc1') context = doc1;\<close>
  \<^verbatim>\<open>else if (agent.contextType === 'doc2') context = doc2;\<close>
  \<^verbatim>\<open>else context = `Document 1:\n${doc1}\n\nDocument 2:\n${doc2}`;\<close>
\<close>

definition resolveContext :: "AgentConfig \<Rightarrow> string \<Rightarrow> string \<Rightarrow> string" where
  "resolveContext agent d1 d2 =
     (if contextType agent = ''doc1'' then d1
      else if contextType agent = ''doc2'' then d2
      else ''Document 1:'' @ NL @ d1 @ NL @ NL @ ''Document 2:'' @ NL @ d2)"

text \<open>
  \<^verbatim>\<open>handleRunAgent(id)\<close>. The handler is a closure of one render: \<open>cl\<close> is the state it
  closed over (it reads \<^verbatim>\<open>agents\<close>, \<^verbatim>\<open>doc1\<close>, \<^verbatim>\<open>doc2\<close> and \<^verbatim>\<open>apiKey\<close> there), \<open>st\<close> the
  current state, which the functional updates \<^verbatim>\<open>setAgents(prev => ...)\<close> transform.
  The \<^verbatim>\<open>await\<close> is sequential here: the state after the handler is the state once its
  promise has settled.
\<close>

definition handleRunAgent :: "world \<Rightarrow> app \<Rightarrow> int \<Rightarrow> app \<Rightarrow> app" where
  "handleRunAgent W cl i st =
     (case find (\<lambda>a. id_agent a = i) (agents cl) of
        None \<Rightarrow> st
      | Some agent \<Rightarrow>
          (let st1 = st\<lparr>agents := map (\<lambda>a. if id_agent a = i
                                            then a\<lparr>isLoading := True, output_agent := Some []\<rparr> else a)
                                     (agents st),
                         error := None\<rparr>;
               context = resolveContext agent (doc1 cl) (doc2 cl);
               (res, tr) = runGeminiAgent W (prompt agent) (model agent) (maxTokens agent)
                             context (Some (apiKey cl)) (trace st1)
           in case res of
                Inr result \<Rightarrow>
                  st1\<lparr>agents := map (\<lambda>a. if id_agent a = i
                                           then a\<lparr>isLoading := False, output_agent := Some result\<rparr> else a)
                                    (agents st1),
                      trace := tr\<rparr>
              | Inl msg \<Rightarrow>
                  st1\<lparr>error := Some msg,
                      agents := map (\<lambda>a. if id_agent a = i then a\<lparr>isLoading := False\<rparr> else a)
                                    (agents st1),
                      trace := tr\<rparr>))"

text \<open>
  \<^verbatim>\<open>handleRunAllAgents\<close>:
  \<^verbatim>\<open>for (const agent of agents) { await handleRunAgent(agent.id); }\<close>
  The loop and every call of \<^verbatim>\<open>handleRunAgent\<close> in it belong to the render in which the
  batch was started.
\<close>

definition run_agents :: "world \<Rightarrow> app \<Rightarrow> AgentConfig list \<Rightarrow> app \<Rightarrow> app" where
  "run_agents W cl as st = foldl (\<lambda>s agent. handleRunAgent W cl (id_agent agent) s) st as"

definition handleRunAllAgents :: "world \<Rightarrow> app \<Rightarrow> app" where
  "handleRunAllAgents W st = run_agents W st (agents st) st"

text \<open>
  A history in which calls of \<^verbatim>\<open>runGeminiAgent\<close> never overlap: each call sends at most one
  request and settles before the next call starts.
\<close>

fun sequential :: "event list \<Rightarrow> bool" where
  "sequential [] = True"
| "sequential (Invoked p m t c k # Settled r # es) = sequential es"
| "sequential (Invoked p m t c k # Requested q # Settled r # es) = sequential es"
| "sequential es = False"

text \<open>
  \<^verbatim>\<open>uploadAgents\<close>. What \<^verbatim>\<open>yaml.load\<close> returns is a \<open>yaml\<close> value: a sequence (whose
  elements the code takes to be \<^verbatim>\<open>AgentConfig\<close> records: \<^verbatim>\<open>as AgentConfig[]\<close>), a mapping,
  a scalar or nothing. The parser is outside the program: \<open>yaml_load\<close> is \<open>Inl\<close> the
  message of the exception it throws, or \<open>Inr\<close> the loaded value. The file is \<open>None\<close>
  when none was chosen.
\<close>

datatype yaml =
    YSeq "AgentConfig list"
  | YMap "(string \<times> string) list"
  | YScalar string
  | YNull

fun isArray :: "yaml \<Rightarrow> bool" where
  "isArray (YSeq xs) = True"
| "isArray _ = False"

fun the_seq :: "yaml \<Rightarrow> AgentConfig list" where
  "the_seq (YSeq xs) = xs"
| "the_seq _ = []"

definition uploadAgents :: "(string \<Rightarrow> string + yaml) \<Rightarrow> string option \<Rightarrow> app \<Rightarrow> app" where
  "uploadAgents yaml_load file st =
     (case file of
        None \<Rightarrow> st
      | Some content \<Rightarrow>
          (case yaml_load content of
             Inl msg \<Rightarrow> st\<lparr>error := Some (''Failed to parse YAML: '' @ msg)\<rparr>
           | Inr loaded \<Rightarrow>
               if isArray loaded
               then st\<lparr>agents := the_seq loaded, error := None\<rparr>
               else st\<lparr>error := Some ''Invalid YAML format: Expected a list of agents.''\<rparr>))"

text \<open>
  The event that records the call \<^verbatim>\<open>runGeminiAgent(agent.prompt, agent.model, agent.maxTokens,
  context, apiKey)\<close> made by \<^verbatim>\<open>handleRunAgent\<close> for \<open>a\<close> in the render \<open>cl\<close>.
\<close>

definition invocation :: "app \<Rightarrow> AgentConfig \<Rightarrow> event" where
  "invocation cl a =
     Invoked (prompt a) (model a) (maxTokens a) (resolveContext a (doc1 cl) (doc2 cl))
       (Some (apiKey cl))"

section \<open>Example values\<close>

text \<open>
  An agent configured like the one \<^verbatim>\<open>App\<close> starts with, the id and the output left open; a
  workspace with two one-letter documents and a key, and the same without a key (as
  \<^verbatim>\<open>App\<close> starts: \<^verbatim>\<open>useState('')\<close>); and four hosted models: one that rejects the second
  request it gets, one that rejects every request, one whose responses carry no text and
  one whose responses carry the empty string.
\<close>

definition analyst :: "int \<Rightarrow> string option \<Rightarrow> AgentConfig" where
  "analyst i out =
     \<lparr>id_agent = i, name = ''Analyst'', prompt = ''Summarize the key points.'',
      model = ''gemini-2.5-flash'', maxTokens = 500, temperature = 7 / 10,
      contextType = ''both'', output_agent = out, isLoading = False\<rparr>"

definition workspace :: "AgentConfig list \<Rightarrow> app" where
  "workspace as =
     \<lparr>agents = as, error = None, doc1 = ''A'', doc2 = ''B'', apiKey = ''key'', trace = []\<rparr>"

definition second_request_fails :: world where
  "second_request_fails =
     \<lparr>env_API_KEY = None,
      generateContent = (\<lambda>n k q. if n = 1 then Rejected ''quota exceeded''
                                 else Resolved (Some ''ok''))\<rparr>"

definition every_request_fails :: world where
  "every_request_fails =
     \<lparr>env_API_KEY = None, generateContent = (\<lambda>n k q. Rejected ''quota exceeded'')\<rparr>"

definition answers_nothing :: world where
  "answers_nothing =
     \<lparr>env_API_KEY = None, generateContent = (\<lambda>n k q. Resolved None)\<rparr>"

definition answers_empty :: world where
  "answers_empty =
     \<lparr>env_API_KEY = None, generateContent = (\<lambda>n k q. Resolved (Some []))\<rparr>"

definition keyless_workspace :: "AgentConfig list \<Rightarrow> app" where
  "keyless_workspace as =
     \<lparr>agents = as, error = None, doc1 = ''A'', doc2 = ''B'', apiKey = [], trace = []\<rparr>"

section \<open>Rounding to a double\<close>

lemma two_powi_nat: "0 \<le> k \<Longrightarrow> (2::real) powi k = 2 ^ nat k"
  by (simp add: power_int_def)

lemma two_powi_shift: "(2::real) powi (e + int n) = 2 ^ n * 2 powi e"
  by (simp add: power_int_add)

lemma two_powi_52: "(2::real) powi e = 2 ^ 52 * 2 powi (e - 52)"
proof -
  have "e = (e - 52) + int 52" by simp
  then have "(2::real) powi e = 2 powi ((e - 52) + int 52)" by (rule arg_cong)
  also have "\<dots> = 2 ^ 52 * 2 powi (e - 52)" by (rule two_powi_shift)
  finally show ?thesis .
qed

lemma two_powi_53: "(2::real) powi (e + 1) = 2 ^ 53 * 2 powi (e - 52)"
proof -
  have "e + 1 = (e - 52) + int 53" by simp
  then have "(2::real) powi (e + 1) = 2 powi ((e - 52) + int 53)" by (rule arg_cong)
  also have "\<dots> = 2 ^ 53 * 2 powi (e - 52)" by (rule two_powi_shift)
  finally show ?thesis .
qed

lemma abs_scale:
  assumes "0 < u"
  shows "\<bar>a * u - x\<bar> = \<bar>a - x / u\<bar> * (u::real)"
proof -
  have "a * u - x = (a - x / u) * u" using assms by (simp add: field_simps)
  then show ?thesis using assms by (simp add: abs_mult)
qed

lemma two_powi_less_iff: "(2::real) powi a < 2 powi b \<longleftrightarrow> a < b"
  by (metis linorder_not_less one_less_numeral_iff power_int_increasing
      power_int_strict_increasing semiring_norm(76) order_less_imp_le)

lemma two_powi_le_iff: "(2::real) powi a \<le> 2 powi b \<longleftrightarrow> a \<le> b"
  by (metis two_powi_less_iff linorder_not_less)

lemma expo_bracket:
  assumes "0 < x"
  shows "2 powi expo x \<le> x" and "x < 2 powi (expo x + 1)"
proof -
  have "2 powi expo x \<le> x \<and> x < 2 powi (expo x + 1)"
  proof (cases "1 \<le> x")
    case True
    define n where "n = \<lfloor>x\<rfloor>"
    have n: "0 < n" "of_int n \<le> x" "x < of_int n + 1"
      using True by (simp_all add: n_def)
    have b: "2 ^ nat (bitlen n - 1) \<le> n" "n < 2 ^ nat (bitlen n)"
      using bitlen_bounds[OF n(1)] by simp_all
    have p: "1 \<le> bitlen n" using n(1) bitlen_eq_zero_iff[of n] bitlen_nonneg[of n] by linarith
    have e: "expo x = bitlen n - 1" using True by (simp add: expo_def n_def)
    have "(2::real) powi (bitlen n - 1) = 2 ^ nat (bitlen n - 1)"
      using p by (simp add: two_powi_nat)
    also have "\<dots> \<le> of_int n" using b(1) by simp
    finally have l: "2 powi expo x \<le> x" using n(2) e by simp
    have "n + 1 \<le> 2 ^ nat (bitlen n)" using b(2) by simp
    then have "real_of_int (n + 1) \<le> 2 ^ nat (bitlen n)"
      by (simp only: of_int_le_numeral_power_cancel_iff)
    then have "x < 2 ^ nat (bitlen n)" using n(3) by simp
    moreover have "(2::real) powi (bitlen n - 1 + 1) = 2 ^ nat (bitlen n)"
      using p by (simp add: two_powi_nat)
    ultimately show ?thesis using l e by simp
  next
    case False
    define y where "y = 1 / x"
    define n where "n = \<lceil>y\<rceil>"
    define k where "k = bitlen (n - 1)"
    have y: "1 < y" using False assms by (simp add: y_def)
    have n: "of_int n - 1 < y" "y \<le> of_int n" unfolding n_def by linarith+
    have n1: "0 < n - 1" using y n(2) by linarith
    have b: "2 ^ nat (k - 1) \<le> n - 1" "n - 1 < 2 ^ nat k"
      using bitlen_bounds[OF n1] by (simp_all add: k_def)
    have p: "1 \<le> k"
      using n1 bitlen_eq_zero_iff[of "n - 1"] bitlen_nonneg[of "n - 1"] by (simp add: k_def)
    have e: "expo x = - k" using False by (simp add: expo_def n_def y_def k_def)
    have xy: "x = 1 / y" by (simp add: y_def)
    have "n \<le> 2 ^ nat k" using b(2) by simp
    then have "real_of_int n \<le> 2 ^ nat k" by simp
    then have "y \<le> 2 ^ nat k" using n(2) by linarith
    then have "1 / 2 ^ nat k \<le> 1 / y" using y by (intro divide_left_mono) simp_all
    moreover have "(2::real) powi (- k) = 1 / 2 ^ nat k"
      using p by (simp add: power_int_minus_divide two_powi_nat)
    ultimately have l: "2 powi expo x \<le> x" using e xy by simp
    have "(2::real) ^ nat (k - 1) \<le> of_int (n - 1)"
      using b(1) by (simp only: numeral_power_le_of_int_cancel_iff)
    then have "2 ^ nat (k - 1) < y" using n(1) by simp
    then have "1 / y < 1 / 2 ^ nat (k - 1)" using y by (intro divide_strict_left_mono) simp_all
    moreover have "(2::real) powi (- k + 1) = 1 / 2 ^ nat (k - 1)"
    proof -
      have "- k + 1 = - (k - 1)" by simp
      then show ?thesis using p by (simp only: power_int_minus_divide) (simp add: two_powi_nat)
    qed
    ultimately show ?thesis using l e xy by simp
  qed
  then show "2 powi expo x \<le> x" and "x < 2 powi (expo x + 1)" by simp_all
qed

lemma rne_of_int [simp]: "rne (of_int k) = k"
  by (simp add: rne_def)

lemma rne_half: "\<bar>of_int (rne y) - y\<bar> \<le> 1 / 2"
proof -
  have "of_int \<lfloor>y\<rfloor> \<le> y" "y < of_int \<lfloor>y\<rfloor> + 1" by linarith+
  then show ?thesis by (auto simp add: rne_def Let_def)
qed

lemma rne_nearest: "\<bar>of_int (rne y) - y\<bar> \<le> \<bar>of_int k - y\<bar>"
proof (cases "k = rne y")
  case True
  then show ?thesis by simp
next
  case False
  then have "1 \<le> \<bar>k - rne y\<bar>" by linarith
  then have "(1::real) \<le> \<bar>of_int k - of_int (rne y)\<bar>"
    by (metis of_int_1 of_int_abs of_int_diff of_int_le_iff)
  then show ?thesis using rne_half[of y] by linarith
qed

lemma double_multiple:
  assumes "is_double d" "2 powi e \<le> \<bar>d\<bar>"
  shows "\<exists>j. d = of_int j * 2 powi (e - 52)"
proof -
  obtain m k where m: "\<bar>m\<bar> < 2 ^ 53" and d: "d = of_int m * 2 powi k"
    using assms(1) by (auto simp add: is_double_def)
  have "\<bar>d\<bar> = of_int \<bar>m\<bar> * 2 powi k" by (simp add: d abs_mult)
  moreover have "real_of_int \<bar>m\<bar> < 2 ^ 53" using m by (metis of_int_less_iff of_int_numeral of_int_power)
  ultimately have "\<bar>d\<bar> < 2 ^ 53 * 2 powi k"
    by (metis mult_strict_right_mono zero_less_numeral zero_less_power_int)
  then have "(2::real) powi e < 2 powi (53 + k)"
    using assms(2) by (simp add: power_int_add)
  then have "e < 53 + k" by (simp only: two_powi_less_iff)
  then have g: "0 \<le> k - (e - 52)" by simp
  have "(2::real) powi k = 2 powi (k - (e - 52)) * 2 powi (e - 52)"
    by (simp add: power_int_add[symmetric])
  also have "\<dots> = of_int (2 ^ nat (k - (e - 52))) * 2 powi (e - 52)"
    using g by (simp add: two_powi_nat)
  finally have "d = of_int (m * 2 ^ nat (k - (e - 52))) * 2 powi (e - 52)"
    by (simp add: d)
  then show ?thesis by blast
qed

lemma multiple_double:
  assumes "\<bar>j\<bar> \<le> 2 ^ 53"
  shows "is_double (of_int j * 2 powi e)"
proof (cases "\<bar>j\<bar> < 2 ^ 53")
  case True
  then show ?thesis unfolding is_double_def by blast
next
  case False
  then have "j = 2 ^ 53 \<or> j = - (2 ^ 53)" using assms by linarith
  then have "of_int j * 2 powi e = of_int (j div 2) * (2::real) powi (e + 1)" "\<bar>j div 2\<bar> < 2 ^ 53"
    by (auto simp add: power_int_add)
  then show ?thesis unfolding is_double_def by metis
qed

lemma is_double_0 [simp]: "is_double 0"
  using multiple_double[of 0 0] by simp

lemma is_double_int: "\<bar>k\<bar> \<le> 2 ^ 53 \<Longrightarrow> is_double (of_int k)"
  using multiple_double[of k 0] by simp

lemma is_double_numerals [simp]: "is_double 360" "is_double 5" "is_double 1800" "is_double 1"
  using is_double_int[of 360] is_double_int[of 5] is_double_int[of 1800] is_double_int[of 1]
  by simp_all

lemma fl_0 [simp]: "fl 0 = 0"
  by (simp add: fl_def)

lemma fl_double: "is_double (fl x)"
proof (cases "x = 0")
  case True
  then show ?thesis by simp
next
  case False
  define e where "e = expo \<bar>x\<bar>"
  define u :: real where "u = 2 powi (e - 52)"
  have u: "0 < u" by (simp add: u_def)
  have "\<bar>x\<bar> < 2 powi (e + 1)" using expo_bracket(2)[of "\<bar>x\<bar>"] False by (simp add: e_def)
  also have "\<dots> = 2 ^ 53 * u" unfolding u_def by (rule two_powi_53)
  finally have "\<bar>x / u\<bar> < 2 ^ 53" using u by (simp add: field_simps)
  then have "\<bar>real_of_int (rne (x / u))\<bar> < 2 ^ 53 + 1"
    using rne_half[of "x / u"] by linarith
  then have "real_of_int \<bar>rne (x / u)\<bar> < of_int (2 ^ 53 + 1)" by simp
  then have "\<bar>rne (x / u)\<bar> < 2 ^ 53 + 1" by (simp only: of_int_less_iff)
  then have "\<bar>rne (x / u)\<bar> \<le> 2 ^ 53" by simp
  then have "is_double (of_int (rne (x / u)) * 2 powi (e - 52))" by (rule multiple_double)
  then show ?thesis using False by (simp add: fl_def Let_def e_def u_def)
qed

lemma fl_id:
  assumes "is_double x"
  shows "fl x = x"
proof (cases "x = 0")
  case True
  then show ?thesis by simp
next
  case False
  define e where "e = expo \<bar>x\<bar>"
  have "2 powi e \<le> \<bar>x\<bar>" using expo_bracket(1)[of "\<bar>x\<bar>"] False by (simp add: e_def)
  from double_multiple[OF assms this] obtain j where j: "x = of_int j * 2 powi (e - 52)" ..
  define u :: real where "u = 2 powi (e - 52)"
  have f: "fl x = of_int (rne (x / u)) * u"
    using False by (simp add: fl_def Let_def e_def u_def)
  have "x / u = of_int j" by (simp add: j u_def)
  then have "fl x = of_int j * u" unfolding f by simp
  then show ?thesis by (simp add: j u_def)
qed


lemma fl_nearest:
  assumes "is_double d"
  shows "\<bar>fl x - x\<bar> \<le> \<bar>d - x\<bar>"
proof (cases "x = 0")
  case True
  then show ?thesis by simp
next
  case False
  define e where "e = expo \<bar>x\<bar>"
  define u :: real where "u = 2 powi (e - 52)"
  have u: "0 < u" by (simp add: u_def)
  have f: "fl x = of_int (rne (x / u)) * u" using False by (simp add: fl_def Let_def e_def u_def)
  have lo: "2 powi e \<le> \<bar>x\<bar>" and hi: "\<bar>x\<bar> < 2 powi (e + 1)"
    using expo_bracket[of "\<bar>x\<bar>"] False by (simp_all add: e_def)
  have pe: "(2::real) powi e = 2 ^ 52 * u" and pe1: "(2::real) powi (e + 1) = 2 ^ 53 * u"
    unfolding u_def by (rule two_powi_52, rule two_powi_53)
  have mult: "\<bar>fl x - x\<bar> \<le> \<bar>of_int k * u - x\<bar>" for k
  proof -
    have "\<bar>fl x - x\<bar> = \<bar>of_int (rne (x / u)) - x / u\<bar> * u"
      unfolding f by (rule abs_scale[OF u])
    also have "\<dots> \<le> \<bar>of_int k - x / u\<bar> * u"
      using rne_nearest[of "x / u" k] u by (intro mult_right_mono) simp_all
    also have "\<dots> = \<bar>of_int k * u - x\<bar>"
      by (rule abs_scale[OF u, symmetric])
    finally show ?thesis .
  qed
  have m52: "\<bar>fl x - x\<bar> \<le> \<bar>2 ^ 52 * u - x\<bar>" "\<bar>fl x - x\<bar> \<le> \<bar>- (2 ^ 52 * u) - x\<bar>"
    using mult[of "2 ^ 52"] mult[of "- (2 ^ 52)"] by simp_all
  have m53: "\<bar>fl x - x\<bar> \<le> \<bar>2 ^ 53 * u - x\<bar>" "\<bar>fl x - x\<bar> \<le> \<bar>- (2 ^ 53 * u) - x\<bar>"
    using mult[of "2 ^ 53"] mult[of "- (2 ^ 53)"] by simp_all
  show ?thesis
  proof (cases "2 powi e \<le> \<bar>d\<bar> \<and> \<bar>d\<bar> \<le> 2 powi (e + 1)")
    case True
    then obtain j where "d = of_int j * u"
      using double_multiple[OF assms, of e] by (auto simp add: u_def)
    then show ?thesis using mult[of j] by simp
  next
    case out: False
    show ?thesis
    proof (cases "0 < x")
      case True
      then show ?thesis using out lo hi m52 m53 unfolding pe pe1 by linarith
    next
      case False
      then show ?thesis using out lo hi m52 m53 \<open>x \<noteq> 0\<close> unfolding pe pe1 by linarith
    qed
  qed
qed

lemma fl_mono:
  assumes "x \<le> y"
  shows "fl x \<le> fl y"
proof (rule ccontr)
  assume "\<not> fl x \<le> fl y"
  then have lt: "fl y < fl x" by simp
  have "\<bar>fl x - x\<bar> \<le> \<bar>fl y - x\<bar>" "\<bar>fl y - y\<bar> \<le> \<bar>fl x - y\<bar>"
    using fl_nearest[OF fl_double] by blast+
  then have "x = y" using lt assms by linarith
  then show False using lt by simp
qed

lemma fl_nonneg: "0 \<le> x \<Longrightarrow> 0 \<le> fl x"
  using fl_mono[of 0 x] by simp



lemma fl_ge_double: "is_double d \<Longrightarrow> d \<le> x \<Longrightarrow> d \<le> fl x"
  using fl_mono[of d x] by (simp add: fl_id)


lemma fl_of_int: "\<bar>k\<bar> \<le> 2 ^ 53 \<Longrightarrow> fl (of_int k) = of_int k"
  by (simp add: fl_id is_double_int)

lemma fl_numerals [simp]: "fl 360 = 360" "fl 5 = 5" "fl 1800 = 1800" "fl 1 = 1"
  using fl_of_int[of 360] fl_of_int[of 5] fl_of_int[of 1800] fl_of_int[of 1] by simp_all


section \<open>Operations on doubles\<close>

lemma val_double: "is_double (val a)"
  using val[of a] by simp

lemma val_dbl: "is_double x \<Longrightarrow> val (dbl x) = x"
  by (simp add: dbl_inverse)

lemma val_dbl_fl [simp]: "val (dbl (fl x)) = fl x"
  by (simp add: val_dbl fl_double)

lemma fl_val [simp]: "fl (val a) = val a"
  by (simp add: fl_id val_double)

lemma val_ops [simp]:
  "val (lit x) = fl x"
  "val (dadd a b) = fl (val a + val b)"
  "val (dsub a b) = fl (val a - val b)"
  "val (dmul a b) = fl (val a * val b)"
  "val (ddiv a b) = fl (val a / val b)"
  "val (drem a b) = fl (js_rem (val a) (val b))"
  by (simp_all add: lit_def dadd_def dsub_def dmul_def ddiv_def drem_def)

lemma val_dmod [simp]: "val (dmod a b) = fl (math_mod (val a) (val b))"
  by (simp add: dmod_def)

lemmas fl_eval = fl_def expo_def rne_def Let_def compute_bitlen power_int_minus_divide

lemmas wheel_eval = selectedIndex_def landingAngle_def sliceAngle_def extraSpins_def
  randomOffset_def totalRotation_def js_rem_def trunc_def

lemmas wheel_state_eval = spin_def spin_timeout_def initial_wheel_def wheel_run_def js_index_def

section \<open>Remainders\<close>

lemma math_mod_decomp:
  assumes "0 < y"
  shows "x = of_int \<lfloor>x / y\<rfloor> * y + math_mod x y" "0 \<le> math_mod x y" "math_mod x y < y"
proof -
  show "x = of_int \<lfloor>x / y\<rfloor> * y + math_mod x y" by (simp add: math_mod_def)
  have "of_int \<lfloor>x / y\<rfloor> \<le> x / y" by simp
  then have "of_int \<lfloor>x / y\<rfloor> * y \<le> x" using assms by (simp only: pos_le_divide_eq)
  then show "0 \<le> math_mod x y" by (simp add: math_mod_def mult.commute)
  have "x / y < of_int \<lfloor>x / y\<rfloor> + 1" by linarith
  then have "x < (of_int \<lfloor>x / y\<rfloor> + 1) * y" using assms by (simp only: pos_divide_less_eq)
  then show "math_mod x y < y" by (simp add: math_mod_def algebra_simps)
qed


lemma js_rem_nonneg:
  assumes "0 \<le> x"
  shows "js_rem x 360 = math_mod x 360"
  using assms by (simp add: js_rem_def math_mod_def trunc_def)

lemma js_rem_range:
  assumes "0 \<le> x"
  shows "0 \<le> js_rem x 360" "js_rem x 360 < 360" "js_rem x 360 \<le> x"
proof -
  show "0 \<le> js_rem x 360" "js_rem x 360 < 360"
    using math_mod_decomp[of 360 x] assms by (simp_all add: js_rem_nonneg)
  have "0 \<le> x / 360" using assms by simp
  then have "0 \<le> \<lfloor>x / 360\<rfloor>" by simp
  then have "0 \<le> 360 * real_of_int \<lfloor>x / 360\<rfloor>" by simp
  then show "js_rem x 360 \<le> x" using assms by (simp add: js_rem_nonneg math_mod_def)
qed

lemma js_rem_small:
  assumes "0 \<le> x" "x < 360"
  shows "js_rem x 360 = x"
proof -
  have "\<lfloor>x / 360\<rfloor> = 0" using assms by (simp add: floor_eq_iff)
  then show ?thesis using assms by (simp add: js_rem_def trunc_def)
qed

lemma js_rem_360 [simp]: "js_rem 360 360 = 0"
  by (simp add: js_rem_def trunc_def)

lemma js_rem_double:
  assumes "is_double x" "0 \<le> x"
  shows "is_double (js_rem x 360)"
proof -
  obtain m k where m: "\<bar>m\<bar> < 2 ^ 53" and x: "x = of_int m * 2 powi k"
    using assms(1) by (auto simp add: is_double_def)
  define t where "t = \<lfloor>x / 360\<rfloor>"
  have r: "js_rem x 360 = x - 360 * of_int t"
    using assms(2) by (simp add: js_rem_nonneg math_mod_def t_def)
  have rng: "0 \<le> js_rem x 360" "js_rem x 360 < 360" "js_rem x 360 \<le> x"
    using js_rem_range[OF assms(2)] by simp_all
  show ?thesis
  proof (cases "3 \<le> k")
    case True
    have p: "(2::real) powi k = of_int (2 ^ nat (k - 3)) * 8"
      using True two_powi_shift[of 3 "nat (k - 3)"] by simp
    have "x - 360 * of_int t = of_int m * (of_int (2 ^ nat (k - 3)) * 8) - 360 * of_int t"
      unfolding x p ..
    also have "\<dots> = of_int (m * 2 ^ nat (k - 3) - 45 * t) * 8"
      by (simp add: algebra_simps)
    finally have e: "js_rem x 360 = of_int (m * 2 ^ nat (k - 3) - 45 * t) * 8"
      unfolding r .
    define j where "j = m * 2 ^ nat (k - 3) - 45 * t"
    have "0 \<le> real_of_int j * 8" "real_of_int j * 8 < 360"
      using rng(1,2) unfolding e j_def by simp_all
    then have "0 \<le> j" "j < 45" by linarith+
    then have "\<bar>j\<bar> \<le> 2 ^ 53" by simp
    then have "is_double (of_int j * 2 powi 3)" by (rule multiple_double)
    then show ?thesis unfolding e j_def by simp
  next
    case False
    have p: "(8::real) = of_int (2 ^ nat (3 - k)) * 2 powi k"
      using False two_powi_shift[of k "nat (3 - k)"] by simp
    have "x - 360 * of_int t = of_int m * 2 powi k - 45 * 8 * of_int t"
      unfolding x by simp
    also have "\<dots> = of_int m * 2 powi k - 45 * (of_int (2 ^ nat (3 - k)) * 2 powi k) * of_int t"
      by (simp only: p[symmetric])
    also have "\<dots> = of_int (m - 45 * 2 ^ nat (3 - k) * t) * 2 powi k"
      by (simp add: algebra_simps)
    finally have e: "js_rem x 360 = of_int (m - 45 * 2 ^ nat (3 - k) * t) * 2 powi k"
      unfolding r .
    define j where "j = m - 45 * 2 ^ nat (3 - k) * t"
    have ej: "js_rem x 360 = of_int j * 2 powi k" unfolding e j_def ..
    have "0 \<le> of_int j * (2::real) powi k"
      using rng(1) by (simp only: ej)
    moreover have "of_int j * (2::real) powi k \<le> of_int m * 2 powi k"
      using rng(3) by (simp only: ej x[symmetric])
    moreover have pk: "0 < (2::real) powi k" by simp
    moreover from pk have "\<not> (2::real) powi k \<le> 0" by linarith
    ultimately have "0 \<le> real_of_int j" "real_of_int j \<le> of_int m"
      by (auto simp add: zero_le_mult_iff)
    then have "0 \<le> j" "j \<le> m" by linarith+
    then have "\<bar>j\<bar> \<le> 2 ^ 53" using m by simp
    then have "is_double (of_int j * 2 powi k)" by (rule multiple_double)
    then show ?thesis unfolding ej .
  qed
qed

lemma val_drem_360:
  assumes "0 \<le> val a"
  shows "val (drem a (lit 360)) = js_rem (val a) 360"
  using js_rem_double[OF val_double assms] by (simp add: fl_id)







section \<open>The rotation never decreases\<close>

lemma turns_at_least_1800:
  assumes "0 \<le> val r1"
  shows "1800 \<le> val (dmul (extraSpins r1) (lit 360))"
proof -
  have "0 \<le> fl (val r1 * 5)" using assms by (intro fl_nonneg) simp
  then have "5 \<le> fl (5 + fl (val r1 * 5))"
    by (intro fl_ge_double) simp_all
  then have "5 \<le> val (extraSpins r1)"
    by (simp add: extraSpins_def)
  then have "1800 \<le> val (extraSpins r1) * 360" by simp
  then have "1800 \<le> fl (val (extraSpins r1) * 360)"
    by (intro fl_ge_double) simp_all
  then show ?thesis by simp
qed

lemma totalRotation_ge:
  assumes "0 \<le> val r1" "0 \<le> val r2"
  shows "val (dadd rot (lit 1800)) \<le> val (totalRotation rot (extraSpins r1) (randomOffset r2))"
    and "val rot \<le> val (dadd rot (lit 1800))"
proof -
  define T where "T = val (dmul (extraSpins r1) (lit 360))"
  define X where "X = fl (val rot + T)"
  have T: "1800 \<le> T" unfolding T_def using assms(1) by (rule turns_at_least_1800)
  have off: "0 \<le> val (randomOffset r2)"
    using assms(2) by (simp add: randomOffset_def fl_nonneg)
  have a: "fl (val rot + 1800) \<le> X" unfolding X_def using T by (intro fl_mono) simp
  have "is_double X" unfolding X_def by (rule fl_double)
  then have "X \<le> fl (X + val (randomOffset r2))" using off by (intro fl_ge_double) simp_all
  then show "val (dadd rot (lit 1800)) \<le> val (totalRotation rot (extraSpins r1) (randomOffset r2))"
    using a by (simp add: totalRotation_def X_def T_def)
  show "val rot \<le> val (dadd rot (lit 1800))"
    by (simp, intro fl_ge_double val_double, simp)
qed

lemma spin_rotation_le:
  assumes "0 \<le> val r1" "0 \<le> val r2"
  shows "val (rotation w) \<le> val (rotation (spin r1 r2 w))"
  using totalRotation_ge[OF assms, of "rotation w"] by (simp add: spin_def Let_def)

lemma spin_rotation_advance:
  assumes "0 \<le> val r1" "0 \<le> val r2" "\<not> isSpinning w"
  shows "val (dadd (rotation w) (lit 1800)) \<le> val (rotation (spin r1 r2 w))"
  using totalRotation_ge(1)[OF assms(1,2), of "rotation w"] assms(3) by (simp add: spin_def Let_def)

lemma spin_timeout_rotation: "rotation (spin_timeout themes w) = rotation w"
  by (simp add: spin_timeout_def split: list.split)

lemma wheel_step_rotation_le:
  assumes "random_draws op"
  shows "val (rotation w) \<le> val (rotation (wheel_step themes w op))"
  using assms by (cases op) (simp_all add: spin_rotation_le spin_timeout_rotation)

lemma wheel_run_rotation_le:
  assumes "\<forall>op \<in> set ops. random_draws op"
  shows "val (rotation w) \<le> val (rotation (wheel_run themes ops w))"
  using assms
proof (induction ops arbitrary: w)
  case Nil
  then show ?case by (simp add: wheel_run_def)
next
  case (Cons op ops)
  have "val (rotation w) \<le> val (rotation (wheel_step themes w op))"
    using Cons.prems by (simp add: wheel_step_rotation_le)
  also have "\<dots> \<le> val (rotation (wheel_run themes ops (wheel_step themes w op)))"
    using Cons.prems by (intro Cons.IH) simp
  finally show ?case by (simp add: wheel_run_def)
qed

lemma wheel_run_append:
  "wheel_run themes (xs @ ys) w = wheel_run themes ys (wheel_run themes xs w)"
  by (simp add: wheel_run_def)

text \<open>
  C8. Along any sequence of spins and timeouts (with draws in \<open>[0, 1)\<close>) the rotation after
  a prefix is at most the rotation after the whole sequence; a spin while \<open>isSpinning\<close>
  holds returns the state unchanged; a spin of an idle wheel sets a rotation that is at least
  the previous one plus 1800 degrees (as doubles add), which is at least the previous one.
\<close>

theorem rotation_never_decreases:
  assumes "\<forall>op \<in> set (xs @ ys). random_draws op"
  shows "val (rotation (wheel_run themes xs w)) \<le> val (rotation (wheel_run themes (xs @ ys) w))
       \<and> (isSpinning w \<longrightarrow> spin r1 r2 w = w)
       \<and> (\<not> isSpinning w \<and> 0 \<le> val r1 \<and> 0 \<le> val r2 \<longrightarrow>
            val (rotation w) \<le> val (dadd (rotation w) (lit 1800))
            \<and> val (dadd (rotation w) (lit 1800)) \<le> val (rotation (spin r1 r2 w)))"
proof -
  have "\<forall>op \<in> set ys. random_draws op" using assms by simp
  then have "val (rotation (wheel_run themes xs w)) \<le> val (rotation (wheel_run themes (xs @ ys) w))"
    unfolding wheel_run_append by (rule wheel_run_rotation_le)
  moreover have "isSpinning w \<longrightarrow> spin r1 r2 w = w"
    by (simp add: spin_def)
  moreover have "\<not> isSpinning w \<and> 0 \<le> val r1 \<and> 0 \<le> val r2 \<longrightarrow>
            val (rotation w) \<le> val (dadd (rotation w) (lit 1800))
            \<and> val (dadd (rotation w) (lit 1800)) \<le> val (rotation (spin r1 r2 w))"
    using totalRotation_ge(2)[of r1 r2 "rotation w"] spin_rotation_advance[of r1 r2 w] by blast
  ultimately show ?thesis by blast
qed

theorem rotation_never_decreases_witness:
  "random_draws (Spin (lit 0) (lit (1 / 4))) \<and> random_draws (Spin (lit (1 / 2)) (lit (1 / 2)))
   \<and> random_draws Timeout \<and> random_draws (Spin (lit (1 / 8)) (lit (1 / 4)))
   \<and> val (rotation (wheel_run [''rose''] [Spin (lit 0) (lit (1 / 4))] initial_wheel)) = 1890
   \<and> val (rotation (wheel_run [''rose'']
        ([Spin (lit 0) (lit (1 / 4))]
           @ [Spin (lit (1 / 2)) (lit (1 / 2)), Timeout, Spin (lit (1 / 8)) (lit (1 / 4))])
        initial_wheel)) = 4005
   \<and> isSpinning (spin (lit 0) (lit (1 / 4)) (initial_wheel :: string wheel))
   \<and> spin (lit (1 / 2)) (lit (1 / 2)) (spin (lit 0) (lit (1 / 4)) (initial_wheel :: string wheel))
       = spin (lit 0) (lit (1 / 4)) initial_wheel
   \<and> \<not> isSpinning (initial_wheel :: string wheel)
   \<and> val (dadd (rotation (initial_wheel :: string wheel)) (lit 1800)) = 1800
   \<and> 1800 \<le> val (rotation (spin (lit 0) (lit (1 / 4)) (initial_wheel :: string wheel)))"
proof -
  have e: "random_draws (Spin (lit 0) (lit (1 / 4)))" "random_draws (Spin (lit (1 / 2)) (lit (1 / 2)))"
    "random_draws Timeout" "random_draws (Spin (lit (1 / 8)) (lit (1 / 4)))"
    by (simp_all add: fl_eval)
  then have d: "\<forall>op \<in> set ([Spin (lit 0) (lit (1 / 4))]
           @ [Spin (lit (1 / 2)) (lit (1 / 2)), Timeout, Spin (lit (1 / 8)) (lit (1 / 4))]).
      random_draws op"
    by simp
  have a: "val (rotation (wheel_run [''rose''] [Spin (lit 0) (lit (1 / 4))] initial_wheel)) = 1890"
    by (simp add: wheel_state_eval wheel_eval fl_eval)
  have b: "val (rotation (wheel_run [''rose'']
        ([Spin (lit 0) (lit (1 / 4))]
           @ [Spin (lit (1 / 2)) (lit (1 / 2)), Timeout, Spin (lit (1 / 8)) (lit (1 / 4))])
        initial_wheel)) = 4005"
    by (simp add: wheel_state_eval wheel_eval fl_eval)
  have s: "isSpinning (spin (lit 0) (lit (1 / 4)) (initial_wheel :: string wheel))"
    by (simp add: spin_def initial_wheel_def Let_def)
  have i: "\<not> isSpinning (initial_wheel :: string wheel)"
    by (simp add: initial_wheel_def)
  note t1 = rotation_never_decreases [OF d, of "[''rose'']" "spin (lit 0) (lit (1 / 4)) initial_wheel"
      "lit (1 / 2)" "lit (1 / 2)"]
  note t2 = rotation_never_decreases [OF d, of "[''rose'']" initial_wheel "lit 0" "lit (1 / 4)"]
  have n: "spin (lit (1 / 2)) (lit (1 / 2)) (spin (lit 0) (lit (1 / 4)) (initial_wheel :: string wheel))
       = spin (lit 0) (lit (1 / 4)) initial_wheel"
    using t1 s by blast
  have z: "val (dadd (rotation (initial_wheel :: string wheel)) (lit 1800)) = 1800"
    by (simp add: initial_wheel_def fl_eval)
  have "val (dadd (rotation (initial_wheel :: string wheel)) (lit 1800))
       \<le> val (rotation (spin (lit 0) (lit (1 / 4)) (initial_wheel :: string wheel)))"
    using t2 i e(1) by simp
  then have m: "1800 \<le> val (rotation (spin (lit 0) (lit (1 / 4)) (initial_wheel :: string wheel)))"
    unfolding z .
  show ?thesis using e a b s n i z m by blast
qed

section \<open>The resolution formula\<close>

lemma dmod_drem:
  assumes "0 \<le> val a"
  shows "dmod a (lit 360) = drem a (lit 360)"
  using assms by (simp add: dmod_def drem_def js_rem_nonneg)

lemma sub_rem_nonneg:
  assumes "0 \<le> val c"
  shows "0 \<le> val (dsub (lit 360) (drem c (lit 360)))"
proof -
  have "js_rem (val c) 360 \<le> 360" using js_rem_range(2)[OF assms] by simp
  then show ?thesis by (simp add: val_drem_360[OF assms, simplified] fl_nonneg)
qed

lemma selectedIndex_spec:
  assumes "1 \<le> N" "0 \<le> val c"
  shows "selectedIndex c N = spec_selectedIndex c N"
proof -
  have a: "dmod c (lit 360) = drem c (lit 360)"
    using assms(2) by (rule dmod_drem)
  have b: "dmod (dsub (lit 360) (drem c (lit 360))) (lit 360)
             = drem (dsub (lit 360) (drem c (lit 360))) (lit 360)"
    using sub_rem_nonneg[OF assms(2)] by (rule dmod_drem)
  show ?thesis
    using assms(1)
    by (simp add: selectedIndex_def spec_selectedIndex_def landingAngle_def sliceAngle_def
        Let_def a b del: val_ops)
qed

lemma spin_then_timeout:
  assumes "\<not> isSpinning w" "timers w = []"
  shows "spin_timeout themes (spin r1 r2 w) =
           w\<lparr>rotation := totalRotation (rotation w) (extraSpins r1) (randomOffset r2),
             selections := selections w @
               [js_index themes
                  (selectedIndex (totalRotation (rotation w) (extraSpins r1) (randomOffset r2))
                     (length themes))]\<rparr>"
  using assms by (simp add: spin_def spin_timeout_def Let_def)

text \<open>
  C1. For every number \<open>N \<ge> 1\<close> of outcomes and every cumulative rotation (they are never
  negative) the index computed by the timeout callback is the function
  \<open>floor(((360 - (cumulative mod 360)) mod 360) / (360/N))\<close> of the cumulative rotation
  and \<open>N\<close> alone, evaluated in the arithmetic of the program, and a spin of an idle wheel
  followed by its timeout hands \<^verbatim>\<open>onSelect\<close> the theme at that index of the rotation the
  spin has set. With \<open>N = 4\<close>, previous rotation 0, five extra turns and offset 90 the new
  rotation is 1890, the normalised angle is 90 and the index is 3.
\<close>

theorem spin_resolution_formula:
  assumes "1 \<le> N" and "length themes = N" and "\<not> isSpinning w" and "timers w = []"
    and "0 \<le> val (rotation w)" and "random_draws (Spin r1 r2)" and "0 \<le> val c"
  shows "selectedIndex c N = spec_selectedIndex c N
       \<and> selections (spin_timeout themes (spin r1 r2 w)) =
           selections w @
             [js_index themes
                (spec_selectedIndex (rotation (spin r1 r2 w)) N)]
       \<and> val (extraSpins (lit 0)) = 5 \<and> val (randomOffset (lit (1 / 4))) = 90
       \<and> val (totalRotation (lit 0) (lit 5) (lit 90)) = 1890
       \<and> val (drem (lit 1890) (lit 360)) = 90
       \<and> selectedIndex (lit 1890) 4 = 3"
proof -
  have r: "rotation (spin r1 r2 w) = totalRotation (rotation w) (extraSpins r1) (randomOffset r2)"
    using assms(3) by (simp add: spin_def Let_def)
  have "val (rotation w) \<le> val (rotation (spin r1 r2 w))"
    using assms(6) by (intro spin_rotation_le) simp_all
  then have "0 \<le> val (rotation (spin r1 r2 w))" using assms(5) by linarith
  then have "selections (spin_timeout themes (spin r1 r2 w)) =
      selections w @ [js_index themes (spec_selectedIndex (rotation (spin r1 r2 w)) N)]"
    using assms(1-4) selectedIndex_spec[of N "rotation (spin r1 r2 w)"]
    by (simp add: spin_then_timeout r)
  moreover have "val (extraSpins (lit 0)) = 5" "val (randomOffset (lit (1 / 4))) = 90"
    "val (totalRotation (lit 0) (lit 5) (lit 90)) = 1890"
    "val (drem (lit 1890) (lit 360)) = 90"
    "selectedIndex (lit 1890) 4 = 3"
    by (simp_all add: wheel_eval fl_eval)
  ultimately show ?thesis
    using selectedIndex_spec[OF assms(1,7)] by simp
qed

theorem spin_resolution_formula_witness:
  "(1::nat) \<le> 4 \<and> length [''rose'', ''sunflower'', ''lavender'', ''cherry''] = 4
   \<and> \<not> isSpinning (initial_wheel :: string wheel) \<and> timers (initial_wheel :: string wheel) = []
   \<and> 0 \<le> val (rotation (initial_wheel :: string wheel))
   \<and> random_draws (Spin (lit 0) (lit (1 / 4)))
   \<and> 0 \<le> val (lit 1890)
   \<and> val (rotation (spin (lit 0) (lit (1 / 4)) (initial_wheel :: string wheel))) = 1890
   \<and> spec_selectedIndex (lit 1890) 4 = 3
   \<and> selections (spin_timeout [''rose'', ''sunflower'', ''lavender'', ''cherry'']
        (spin (lit 0) (lit (1 / 4)) initial_wheel)) = [Some ''cherry'']"
proof -
  have r: "rotation (spin (lit 0) (lit (1 / 4)) (initial_wheel :: string wheel)) = lit 1890"
    by (simp add: wheel_state_eval wheel_eval fl_eval val_inject[symmetric])
  have i: "\<not> isSpinning (initial_wheel :: string wheel)" "timers (initial_wheel :: string wheel) = []"
    "0 \<le> val (rotation (initial_wheel :: string wheel))"
    by (simp_all add: initial_wheel_def)
  have l: "length [''rose'', ''sunflower'', ''lavender'', ''cherry''] = 4" by simp
  have d: "random_draws (Spin (lit 0) (lit (1 / 4)))" by (simp add: fl_eval)
  have c: "0 \<le> val (lit 1890)" by (simp add: fl_eval)
  have n: "(1::nat) \<le> 4" by simp
  note t = spin_resolution_formula [of 4 "[''rose'', ''sunflower'', ''lavender'', ''cherry'']"
      initial_wheel "lit 0" "lit (1 / 4)" "lit 1890", OF n l i d c]
  have s: "spec_selectedIndex (lit 1890) 4 = 3" using t by simp
  have e: "selections (initial_wheel :: string wheel) = []" by (simp add: initial_wheel_def)
  have "selections (spin_timeout [''rose'', ''sunflower'', ''lavender'', ''cherry'']
        (spin (lit 0) (lit (1 / 4)) initial_wheel)) =
      selections (initial_wheel :: string wheel) @
        [js_index [''rose'', ''sunflower'', ''lavender'', ''cherry'']
           (spec_selectedIndex (rotation (spin (lit 0) (lit (1 / 4)) (initial_wheel :: string wheel))) 4)]"
    using t by blast
  then have f: "selections (spin_timeout [''rose'', ''sunflower'', ''lavender'', ''cherry'']
        (spin (lit 0) (lit (1 / 4)) initial_wheel)) = [Some ''cherry'']"
    unfolding r s e by (simp add: js_index_def)
  have v: "val (rotation (spin (lit 0) (lit (1 / 4)) (initial_wheel :: string wheel))) = 1890"
    unfolding r by (simp add: fl_eval)
  show ?thesis using n i l d c s f v by blast
qed

text \<open>
  The operations round: for eleven themes and the draws 0 and 0.09090909090909105 the
  rotation is 1832.7272727272727 and the index is 10, where the same formula over the
  exact reals gives 9.
\<close>

lemma rounded_slice_boundary:
  "val (rotation (spin (lit 0) (lit (409418147942773 / 2 ^ 52)) (initial_wheel :: string wheel)))
     = 8060419787623331 / 2 ^ 42
   \<and> selectedIndex (lit (8060419787623331 / 2 ^ 42)) 11 = 10
   \<and> \<lfloor>(360 - (8060419787623331 / 2 ^ 42 - 5 * 360)) / (360 / 11 :: real)\<rfloor> = 9"
  by (simp add: wheel_state_eval wheel_eval fl_eval)

section \<open>The index is in bounds\<close>











section \<open>Extra turns and the selected index\<close>





section \<open>One call of the agent service\<close>

lemma agent_request_fields:
  "req_contents (agent_request p m t c) = ''Context:'' @ NL @ c @ NL @ NL @ ''Task:'' @ NL @ p"
  "req_maxOutputTokens (agent_request p m t c) = t"
  "req_model (agent_request p m t c)
     = (if m = ''gemini-2.5-flash-thinking'' then ''gemini-2.5-flash'' else m)"
  "req_thinkingConfig (agent_request p m t c)
     = (if m = ''gemini-2.5-flash-thinking'' then Some 1024 else None)"
  by (simp_all add: agent_request_def)

lemma runGeminiAgent_no_key:
  assumes "getClient W k = Inl msg"
  shows "runGeminiAgent W p m t c k tr =
           (Inl msg, tr @ [Invoked p m t c k, Settled (Inl msg)])"
  using assms by (simp add: runGeminiAgent_def)

lemma runGeminiAgent_rejected:
  assumes "getClient W k = Inr ai"
    and "generateContent W (requests_before tr) ai (agent_request p m t c) = Rejected msg"
  shows "runGeminiAgent W p m t c k tr =
           (Inl msg, tr @ [Invoked p m t c k, Requested (agent_request p m t c), Settled (Inl msg)])"
  using assms by (simp add: runGeminiAgent_def Let_def)

lemma runGeminiAgent_resolved:
  assumes "getClient W k = Inr ai"
    and "generateContent W (requests_before tr) ai (agent_request p m t c) = Resolved resp"
  shows "runGeminiAgent W p m t c k tr =
           (Inr (the (js_or resp (Some ''No output generated.''))),
            tr @ [Invoked p m t c k, Requested (agent_request p m t c),
                  Settled (Inr (the (js_or resp (Some ''No output generated.''))))])"
  using assms by (simp add: runGeminiAgent_def Let_def)

lemma runGeminiAgent_trace:
  assumes "runGeminiAgent W p m t c k tr = (res, tr')"
  shows "tr' = tr @ [Invoked p m t c k, Settled res]
       \<or> tr' = tr @ [Invoked p m t c k, Requested (agent_request p m t c), Settled res]"
  using assms
  by (auto simp add: runGeminiAgent_def Let_def split: sum.splits outcome.splits)

lemma placeholder_nonempty: "the (js_or resp (Some ''No output generated.'')) \<noteq> []"
  by (cases resp) (auto simp add: js_or_def truthy_def)

lemma runGeminiAgent_success:
  assumes "runGeminiAgent W p m t c k tr = (Inr r, tr')"
  shows "r \<noteq> []"
    and "\<exists>ai resp. getClient W k = Inr ai
           \<and> generateContent W (requests_before tr) ai (agent_request p m t c) = Resolved resp
           \<and> r = (if truthy resp then the resp else ''No output generated.'')"
  using assms placeholder_nonempty
  by (auto simp add: runGeminiAgent_def Let_def js_or_def split: sum.splits outcome.splits)

lemma handleRunAgent_not_found:
  assumes "find (\<lambda>a. id_agent a = i) (agents cl) = None"
  shows "handleRunAgent W cl i st = st"
  using assms by (simp add: handleRunAgent_def)

lemma handleRunAgent_found:
  assumes "find (\<lambda>a. id_agent a = i) (agents cl) = Some agent"
    and "runGeminiAgent W (prompt agent) (model agent) (maxTokens agent)
           (resolveContext agent (doc1 cl) (doc2 cl)) (Some (apiKey cl)) (trace st) = (res, tr)"
  shows "handleRunAgent W cl i st =
           st\<lparr>agents := map (\<lambda>a. if id_agent a = i
                                 then a\<lparr>isLoading := False,
                                        output_agent := Some (case res of Inl m \<Rightarrow> [] | Inr r \<Rightarrow> r)\<rparr>
                                 else a) (agents st),
              error := (case res of Inl m \<Rightarrow> Some m | Inr r \<Rightarrow> None),
              trace := tr\<rparr>"
  using assms
  by (cases res) (simp_all add: handleRunAgent_def Let_def comp_def if_distrib cong: if_cong)

lemma getClient_key:
  "getClient W (Some k) =
     (if k \<noteq> [] then Inr k
      else if truthy (env_API_KEY W) then Inr (the (env_API_KEY W))
      else Inl ''API Key is missing. Please provide it in settings or environment.'')"
  by (simp add: getClient_def js_or_def truthy_def Let_def)

lemma runGeminiAgent_block:
  "snd (runGeminiAgent W p m t c (Some k) tr) =
     tr @ [Invoked p m t c (Some k)]
     @ (if k \<noteq> [] \<or> truthy (env_API_KEY W)
        then [Requested
               \<lparr>req_model = (if m = ''gemini-2.5-flash-thinking'' then ''gemini-2.5-flash'' else m),
                req_contents = ''Context:'' @ NL @ c @ NL @ NL @ ''Task:'' @ NL @ p,
                req_maxOutputTokens = t,
                req_thinkingConfig = (if m = ''gemini-2.5-flash-thinking'' then Some 1024 else None)\<rparr>]
        else [])
     @ [Settled (fst (runGeminiAgent W p m t c (Some k) tr))]"
  by (simp add: runGeminiAgent_def getClient_key agent_request_def Let_def
        split: sum.splits outcome.splits)

lemma runGeminiAgent_keyless:
  assumes "k = []" "\<not> truthy (env_API_KEY W)"
  shows "fst (runGeminiAgent W p m t c (Some k) tr)
           = Inl ''API Key is missing. Please provide it in settings or environment.''"
  using assms by (simp add: runGeminiAgent_def getClient_key)

section \<open>A batch of agents\<close>

lemma run_agents_snoc:
  "run_agents W cl (as @ [a]) st = handleRunAgent W cl (id_agent a) (run_agents W cl as st)"
  by (simp add: run_agents_def)

lemma find_distinct:
  assumes "distinct (map id_agent xs)" "a \<in> set xs"
  shows "find (\<lambda>b. id_agent b = id_agent a) xs = Some a"
  using assms by (induction xs) auto

lemma sequential_append:
  assumes "sequential xs" "sequential ys"
  shows "sequential (xs @ ys)"
  using assms by (induction xs rule: sequential.induct) simp_all

lemma handleRunAgent_ids:
  "map id_agent (agents (handleRunAgent W cl i st)) = map id_agent (agents st)"
proof (cases "find (\<lambda>a. id_agent a = i) (agents cl)")
  case None
  then show ?thesis by (simp add: handleRunAgent_not_found)
next
  case (Some agent)
  obtain res tr where "runGeminiAgent W (prompt agent) (model agent) (maxTokens agent)
           (resolveContext agent (doc1 cl) (doc2 cl)) (Some (apiKey cl)) (trace st) = (res, tr)"
    by (cases "runGeminiAgent W (prompt agent) (model agent) (maxTokens agent)
           (resolveContext agent (doc1 cl) (doc2 cl)) (Some (apiKey cl)) (trace st)") blast
  then show ?thesis
    by (simp add: handleRunAgent_found[OF Some] comp_def if_distrib cong: if_cong)
qed

lemma handleRunAgent_step:
  assumes "find (\<lambda>a. id_agent a = i) (agents cl) = Some agent"
  shows "\<exists>res block.
           (block = [invocation cl agent, Settled res]
            \<or> block = [invocation cl agent,
                  Requested (agent_request (prompt agent) (model agent) (maxTokens agent)
                     (resolveContext agent (doc1 cl) (doc2 cl))),
                  Settled res])
         \<and> trace (handleRunAgent W cl i st) = trace st @ block
         \<and> agents (handleRunAgent W cl i st) =
             map (\<lambda>a. if id_agent a = i
                       then a\<lparr>isLoading := False,
                              output_agent := Some (case res of Inl m \<Rightarrow> [] | Inr r \<Rightarrow> r)\<rparr>
                       else a) (agents st)
         \<and> error (handleRunAgent W cl i st) = (case res of Inl m \<Rightarrow> Some m | Inr r \<Rightarrow> None)"
proof -
  obtain res tr where r: "runGeminiAgent W (prompt agent) (model agent) (maxTokens agent)
           (resolveContext agent (doc1 cl) (doc2 cl)) (Some (apiKey cl)) (trace st) = (res, tr)"
    by (cases "runGeminiAgent W (prompt agent) (model agent) (maxTokens agent)
           (resolveContext agent (doc1 cl) (doc2 cl)) (Some (apiKey cl)) (trace st)") blast
  show ?thesis
    using runGeminiAgent_trace[OF r]
    by (auto simp add: handleRunAgent_found[OF assms r] invocation_def)
qed

lemma run_agents_ids:
  "map id_agent (agents (run_agents W cl as st)) = map id_agent (agents st)"
  by (induction as rule: rev_induct) (simp_all add: run_agents_snoc handleRunAgent_ids, simp add: run_agents_def)

lemma handleRunAgent_agents:
  assumes "find (\<lambda>a. id_agent a = i) (agents cl) = Some agent"
  shows "agents (handleRunAgent W cl i st) =
           map (\<lambda>a. if id_agent a = i
                     then a\<lparr>isLoading := False,
                            output_agent := Some (case fst (runGeminiAgent W (prompt agent)
                              (model agent) (maxTokens agent)
                              (resolveContext agent (doc1 cl) (doc2 cl)) (Some (apiKey cl))
                              (trace st)) of Inl m \<Rightarrow> [] | Inr r \<Rightarrow> r)\<rparr>
                     else a) (agents st)"
  using handleRunAgent_found[OF assms, of W st] by (simp add: prod_eq_iff)

lemma find_same_id:
  assumes "a \<in> set xs"
  shows "\<exists>a'. find (\<lambda>b. id_agent b = id_agent a) xs = Some a'"
  using assms by (induction xs) auto

lemma run_agents_calls:
  assumes "set as \<subseteq> set (agents cl)"
  shows "\<exists>new. trace (run_agents W cl as st) = trace st @ new
             \<and> sequential new
             \<and> filter is_Invoked new =
                 map (\<lambda>a. invocation cl (the (find (\<lambda>b. id_agent b = id_agent a) (agents cl)))) as"
  using assms
proof (induction as rule: rev_induct)
  case Nil
  then show ?case by (simp add: run_agents_def)
next
  case (snoc a as)
  then obtain new where n: "trace (run_agents W cl as st) = trace st @ new"
      "sequential new"
      "filter is_Invoked new =
         map (\<lambda>a. invocation cl (the (find (\<lambda>b. id_agent b = id_agent a) (agents cl)))) as"
    by auto
  from snoc.prems find_same_id[of a "agents cl"]
  obtain a' where f: "find (\<lambda>b. id_agent b = id_agent a) (agents cl) = Some a'"
    by auto
  from handleRunAgent_step[OF f, of W "run_agents W cl as st"]
  obtain res block where b:
    "block = [invocation cl a', Settled res]
     \<or> block = [invocation cl a',
          Requested (agent_request (prompt a') (model a') (maxTokens a')
             (resolveContext a' (doc1 cl) (doc2 cl))),
          Settled res]"
    "trace (run_agents W cl (as @ [a]) st) = trace (run_agents W cl as st) @ block"
    unfolding run_agents_snoc by blast
  have "sequential block" "filter is_Invoked block = [invocation cl a']"
    using b(1) by (auto simp add: invocation_def)
  then have "sequential (new @ block)"
    "filter is_Invoked (new @ block) =
       map (\<lambda>a. invocation cl (the (find (\<lambda>b. id_agent b = id_agent a) (agents cl)))) (as @ [a])"
    using n f by (simp_all add: sequential_append)
  moreover have "trace (run_agents W cl (as @ [a]) st) = trace st @ (new @ block)"
    using b(2) n(1) by simp
  ultimately show ?case by blast
qed

lemma run_agents_settled:
  assumes "set as \<subseteq> set (agents cl)"
  shows "\<forall>b \<in> set (agents (run_agents W cl as st)).
           id_agent b \<in> id_agent ` set as \<longrightarrow> \<not> isLoading b"
  using assms
proof (induction as rule: rev_induct)
  case Nil
  then show ?case by simp
next
  case (snoc a as)
  from snoc.prems find_same_id[of a "agents cl"]
  obtain a' where f: "find (\<lambda>b. id_agent b = id_agent a) (agents cl) = Some a'"
    by auto
  then show ?case
    using snoc by (auto simp add: run_agents_snoc handleRunAgent_agents)
qed

lemma handleRunAllAgents_not_loading:
  "\<forall>b \<in> set (agents (handleRunAllAgents W st)). \<not> isLoading b"
proof
  fix b assume b: "b \<in> set (agents (handleRunAllAgents W st))"
  then have "id_agent b \<in> set (map id_agent (agents (handleRunAllAgents W st)))"
    by simp
  then have "id_agent b \<in> id_agent ` set (agents st)"
    by (simp add: handleRunAllAgents_def run_agents_ids)
  then show "\<not> isLoading b"
    using run_agents_settled[OF subset_refl, of W st st] b
    by (simp add: handleRunAllAgents_def)
qed

lemma requests_before_block:
  "requests_before (tr @ [Invoked p m t c k, Requested q, Settled r]) = Suc (requests_before tr)"
  by (simp add: requests_before_def)

lemma three_agents:
  assumes ag: "agents st = [A, B, C]"
    and d: "distinct [id_agent A, id_agent B, id_agent C]"
    and key: "getClient W (Some (apiKey st)) = Inr ai"
    and gA: "generateContent W (requests_before (trace st)) ai
               (agent_request (prompt A) (model A) (maxTokens A)
                  (resolveContext A (doc1 st) (doc2 st))) = Resolved tA"
    and gB: "generateContent W (requests_before (trace st) + 1) ai
               (agent_request (prompt B) (model B) (maxTokens B)
                  (resolveContext B (doc1 st) (doc2 st))) = Rejected msg"
    and gC: "generateContent W (requests_before (trace st) + 2) ai
               (agent_request (prompt C) (model C) (maxTokens C)
                  (resolveContext C (doc1 st) (doc2 st))) = Resolved tC"
  shows "handleRunAllAgents W st =
           st\<lparr>agents :=
                [A\<lparr>isLoading := False,
                   output_agent := Some (the (js_or tA (Some ''No output generated.'')))\<rparr>,
                 B\<lparr>isLoading := False, output_agent := Some []\<rparr>,
                 C\<lparr>isLoading := False,
                   output_agent := Some (the (js_or tC (Some ''No output generated.'')))\<rparr>],
              error := None,
              trace := trace st @
                [invocation st A,
                 Requested (agent_request (prompt A) (model A) (maxTokens A)
                    (resolveContext A (doc1 st) (doc2 st))),
                 Settled (Inr (the (js_or tA (Some ''No output generated.'')))),
                 invocation st B,
                 Requested (agent_request (prompt B) (model B) (maxTokens B)
                    (resolveContext B (doc1 st) (doc2 st))),
                 Settled (Inl msg),
                 invocation st C,
                 Requested (agent_request (prompt C) (model C) (maxTokens C)
                    (resolveContext C (doc1 st) (doc2 st))),
                 Settled (Inr (the (js_or tC (Some ''No output generated.''))))]\<rparr>"
proof -
  define rA where "rA = the (js_or tA (Some ''No output generated.''))"
  define rC where "rC = the (js_or tC (Some ''No output generated.''))"
  define qA where "qA = agent_request (prompt A) (model A) (maxTokens A)
                    (resolveContext A (doc1 st) (doc2 st))"
  define qB where "qB = agent_request (prompt B) (model B) (maxTokens B)
                    (resolveContext B (doc1 st) (doc2 st))"
  define qC where "qC = agent_request (prompt C) (model C) (maxTokens C)
                    (resolveContext C (doc1 st) (doc2 st))"
  define s1 where "s1 = handleRunAgent W st (id_agent A) st"
  define s2 where "s2 = handleRunAgent W st (id_agent B) s1"
  define s3 where "s3 = handleRunAgent W st (id_agent C) s2"
  have fA: "find (\<lambda>a. id_agent a = id_agent A) (agents st) = Some A"
    and fB: "find (\<lambda>a. id_agent a = id_agent B) (agents st) = Some B"
    and fC: "find (\<lambda>a. id_agent a = id_agent C) (agents st) = Some C"
    using ag d by auto
  have e1: "s1 = st\<lparr>agents := [A\<lparr>isLoading := False, output_agent := Some rA\<rparr>, B, C],
                    error := None,
                    trace := trace st @ [invocation st A, Requested qA, Settled (Inr rA)]\<rparr>"
    unfolding s1_def
    using d ag
    by (simp add: handleRunAgent_found[OF fA runGeminiAgent_resolved[OF key gA]]
          rA_def qA_def invocation_def)
  have t1: "requests_before (trace s1) = requests_before (trace st) + 1"
    by (simp add: e1 invocation_def requests_before_block)
  have rB: "runGeminiAgent W (prompt B) (model B) (maxTokens B)
              (resolveContext B (doc1 st) (doc2 st)) (Some (apiKey st)) (trace s1)
            = (Inl msg, trace s1 @ [invocation st B, Requested qB, Settled (Inl msg)])"
    using runGeminiAgent_rejected[OF key, of "trace s1" "prompt B" "model B" "maxTokens B"
        "resolveContext B (doc1 st) (doc2 st)" msg] gB
    by (simp add: t1 qB_def invocation_def)
  have e2: "s2 = st\<lparr>agents := [A\<lparr>isLoading := False, output_agent := Some rA\<rparr>,
                               B\<lparr>isLoading := False, output_agent := Some []\<rparr>, C],
                    error := Some msg,
                    trace := trace st @ [invocation st A, Requested qA, Settled (Inr rA),
                                         invocation st B, Requested qB, Settled (Inl msg)]\<rparr>"
    unfolding s2_def
    using d
    by (simp add: handleRunAgent_found[OF fB rB]) (simp add: e1)
  have t2: "requests_before (trace s2) = requests_before (trace st) + 2"
    by (simp add: e2 invocation_def requests_before_def)
  have rC: "runGeminiAgent W (prompt C) (model C) (maxTokens C)
              (resolveContext C (doc1 st) (doc2 st)) (Some (apiKey st)) (trace s2)
            = (Inr rC, trace s2 @ [invocation st C, Requested qC, Settled (Inr rC)])"
    using runGeminiAgent_resolved[OF key, of "trace s2" "prompt C" "model C" "maxTokens C"
        "resolveContext C (doc1 st) (doc2 st)" tC] gC
    by (simp add: t2 qC_def rC_def invocation_def)
  have e3: "s3 = st\<lparr>agents := [A\<lparr>isLoading := False, output_agent := Some rA\<rparr>,
                               B\<lparr>isLoading := False, output_agent := Some []\<rparr>,
                               C\<lparr>isLoading := False, output_agent := Some rC\<rparr>],
                    error := None,
                    trace := trace st @ [invocation st A, Requested qA, Settled (Inr rA),
                                         invocation st B, Requested qB, Settled (Inl msg),
                                         invocation st C, Requested qC, Settled (Inr rC)]\<rparr>"
    unfolding s3_def
    using d
    by (simp add: handleRunAgent_found[OF fC rC]) (simp add: e2)
  have "handleRunAllAgents W st = s3"
    by (simp add: handleRunAllAgents_def run_agents_def ag s1_def s2_def s3_def)
  then show ?thesis
    by (simp add: e3 rA_def rC_def qA_def qB_def qC_def)
qed

lemmas example_defs = workspace_def keyless_workspace_def analyst_def every_request_fails_def
  second_request_fails_def answers_nothing_def answers_empty_def

lemmas run_defs = runGeminiAgent_def getClient_def js_or_def truthy_def Let_def
  resolveContext_def agent_request_def requests_before_def


section \<open>A failing run\<close>

text \<open>
  C3, as the code has it. When the call of \<^verbatim>\<open>runGeminiAgent\<close> for a found agent fails
  (no key, or the request is rejected), every agent with that id ends with
  \<^verbatim>\<open>isLoading = false\<close> and with the empty output that \<^verbatim>\<open>handleRunAgent\<close> set before the
  call (the failure branch does not write the output), the other agents are as they were,
  \<^verbatim>\<open>error\<close> holds the message of the failure, and the run made one call and sent at most
  one request: nothing is retried.
\<close>

theorem failed_run_clears_output:
  assumes "find (\<lambda>a. id_agent a = i) (agents cl) = Some agent"
    and "runGeminiAgent W (prompt agent) (model agent) (maxTokens agent)
           (resolveContext agent (doc1 cl) (doc2 cl)) (Some (apiKey cl)) (trace st) = (Inl msg, tr)"
  shows "agents (handleRunAgent W cl i st) =
           map (\<lambda>a. if id_agent a = i then a\<lparr>isLoading := False, output_agent := Some []\<rparr> else a)
             (agents st)
       \<and> error (handleRunAgent W cl i st) = Some msg
       \<and> (\<exists>new. trace (handleRunAgent W cl i st) = trace st @ new
                \<and> length (filter is_Invoked new) = 1
                \<and> length (filter is_Requested new) \<le> 1)"
proof -
  have "tr = trace st @ [Invoked (prompt agent) (model agent) (maxTokens agent)
                 (resolveContext agent (doc1 cl) (doc2 cl)) (Some (apiKey cl)), Settled (Inl msg)]
      \<or> tr = trace st @ [Invoked (prompt agent) (model agent) (maxTokens agent)
                 (resolveContext agent (doc1 cl) (doc2 cl)) (Some (apiKey cl)),
               Requested (agent_request (prompt agent) (model agent) (maxTokens agent)
                 (resolveContext agent (doc1 cl) (doc2 cl))), Settled (Inl msg)]"
    using runGeminiAgent_trace[OF assms(2)] .
  then have "\<exists>new. tr = trace st @ new \<and> length (filter is_Invoked new) = 1
                \<and> length (filter is_Requested new) \<le> 1"
    by auto
  then show ?thesis
    by (simp add: handleRunAgent_found[OF assms])
qed

theorem failed_run_clears_output_witness:
  "find (\<lambda>a. id_agent a = 1) (agents (workspace [analyst 1 (Some ''old'')]))
     = Some (analyst 1 (Some ''old''))
   \<and> fst (runGeminiAgent every_request_fails (prompt (analyst 1 (Some ''old'')))
        (model (analyst 1 (Some ''old''))) (maxTokens (analyst 1 (Some ''old'')))
        (resolveContext (analyst 1 (Some ''old'')) (doc1 (workspace [analyst 1 (Some ''old'')]))
           (doc2 (workspace [analyst 1 (Some ''old'')])))
        (Some (apiKey (workspace [analyst 1 (Some ''old'')])))
        (trace (workspace [analyst 1 (Some ''old'')]))) = Inl ''quota exceeded''
   \<and> agents (handleRunAgent every_request_fails (workspace [analyst 1 (Some ''old'')]) 1
        (workspace [analyst 1 (Some ''old'')])) = [analyst 1 (Some [])]
   \<and> error (handleRunAgent every_request_fails (workspace [analyst 1 (Some ''old'')]) 1
        (workspace [analyst 1 (Some ''old'')])) = Some ''quota exceeded''"
proof -
  let ?a = "analyst 1 (Some ''old'')"
  let ?w = "workspace [?a]"
  let ?run = "runGeminiAgent every_request_fails (prompt ?a) (model ?a) (maxTokens ?a)
        (resolveContext ?a (doc1 ?w) (doc2 ?w)) (Some (apiKey ?w)) (trace ?w)"
  have f: "find (\<lambda>a. id_agent a = 1) (agents ?w) = Some ?a"
    by (simp add: example_defs)
  have r: "fst ?run = Inl ''quota exceeded''"
    by (simp add: example_defs run_defs)
  then have r': "?run = (Inl ''quota exceeded'', snd ?run)"
    by (simp add: prod_eq_iff)
  have m: "map (\<lambda>a. if id_agent a = 1 then a\<lparr>isLoading := False, output_agent := Some []\<rparr> else a)
             (agents ?w) = [analyst 1 (Some [])]"
    by (simp add: example_defs)
  show ?thesis
    using failed_run_clears_output [OF f r'] f r m by simp
qed

text \<open>
  C3, as it is stated, fails: the output is not the one the agent had before the run. An
  agent whose output is \<open>''old''\<close> and whose request is rejected ends with the empty output.
\<close>

theorem failed_run_loses_previous_output:
  "output_agent (analyst 1 (Some ''old'')) = Some ''old''
   \<and> fst (runGeminiAgent every_request_fails (prompt (analyst 1 (Some ''old'')))
        (model (analyst 1 (Some ''old''))) (maxTokens (analyst 1 (Some ''old'')))
        (resolveContext (analyst 1 (Some ''old'')) (doc1 (workspace [analyst 1 (Some ''old'')]))
           (doc2 (workspace [analyst 1 (Some ''old'')])))
        (Some (apiKey (workspace [analyst 1 (Some ''old'')])))
        (trace (workspace [analyst 1 (Some ''old'')]))) = Inl ''quota exceeded''
   \<and> map output_agent (agents (handleRunAgent every_request_fails
        (workspace [analyst 1 (Some ''old'')]) 1 (workspace [analyst 1 (Some ''old'')])))
       = [Some []]"
  by (simp add: example_defs run_defs handleRunAgent_def)

section \<open>The context of a run\<close>

text \<open>
  C6. The context is \<open>doc1\<close> for \<open>''doc1''\<close>, \<open>doc2\<close> for \<open>''doc2''\<close> and
  \<open>Document 1:\n<doc1>\n\nDocument 2:\n<doc2>\<close> for \<open>''both''\<close>, and it is the context a run
  calls \<^verbatim>\<open>runGeminiAgent\<close> with. With \<open>doc1 = ''A''\<close> and \<open>doc2 = ''B''\<close>, \<open>''both''\<close> gives
  both documents under their labels and \<open>''doc1''\<close> gives \<open>''A''\<close> alone.
\<close>

theorem context_resolution:
  "(contextType agent = ''doc1'' \<longrightarrow> resolveContext agent d1 d2 = d1)
   \<and> (contextType agent = ''doc2'' \<longrightarrow> resolveContext agent d1 d2 = d2)
   \<and> (contextType agent = ''both'' \<longrightarrow>
        resolveContext agent d1 d2
          = ''Document 1:'' @ NL @ d1 @ NL @ NL @ ''Document 2:'' @ NL @ d2)
   \<and> (find (\<lambda>a. id_agent a = i) (agents cl) = Some agent \<longrightarrow>
        Invoked (prompt agent) (model agent) (maxTokens agent)
          (resolveContext agent (doc1 cl) (doc2 cl)) (Some (apiKey cl))
          \<in> set (trace (handleRunAgent W cl i st)))
   \<and> resolveContext (analyst 1 None\<lparr>contextType := ''both''\<rparr>) ''A'' ''B''
        = ''Document 1:'' @ NL @ ''A'' @ NL @ NL @ ''Document 2:'' @ NL @ ''B''
   \<and> resolveContext (analyst 1 None\<lparr>contextType := ''doc1''\<rparr>) ''A'' ''B'' = ''A''"
proof -
  have "Invoked (prompt agent) (model agent) (maxTokens agent)
          (resolveContext agent (doc1 cl) (doc2 cl)) (Some (apiKey cl))
          \<in> set (trace (handleRunAgent W cl i st))"
    if f: "find (\<lambda>a. id_agent a = i) (agents cl) = Some agent"
    using handleRunAgent_step[OF f, of W st] by (auto simp add: invocation_def)
  then show ?thesis
    by (simp add: resolveContext_def analyst_def)
qed

theorem context_resolution_witness:
  "contextType (analyst 1 None\<lparr>contextType := ''doc1''\<rparr>) = ''doc1''
   \<and> contextType (analyst 1 None\<lparr>contextType := ''doc2''\<rparr>) = ''doc2''
   \<and> contextType (analyst 1 None) = ''both''
   \<and> find (\<lambda>a. id_agent a = 1) (agents (workspace [analyst 1 None])) = Some (analyst 1 None)
   \<and> resolveContext (analyst 1 None\<lparr>contextType := ''doc1''\<rparr>) ''A'' ''B'' = ''A''
   \<and> resolveContext (analyst 1 None\<lparr>contextType := ''doc2''\<rparr>) ''A'' ''B'' = ''B''
   \<and> resolveContext (analyst 1 None) ''A'' ''B''
        = ''Document 1:'' @ NL @ ''A'' @ NL @ NL @ ''Document 2:'' @ NL @ ''B''
   \<and> Invoked ''Summarize the key points.'' ''gemini-2.5-flash'' 500
        (''Document 1:'' @ NL @ ''A'' @ NL @ NL @ ''Document 2:'' @ NL @ ''B'') (Some ''key'')
        \<in> set (trace (handleRunAgent answers_nothing (workspace [analyst 1 None]) 1
                  (workspace [analyst 1 None])))"
proof -
  let ?w = "workspace [analyst 1 None]"
  have c: "contextType (analyst 1 None\<lparr>contextType := ''doc1''\<rparr>) = ''doc1''"
    "contextType (analyst 1 None\<lparr>contextType := ''doc2''\<rparr>) = ''doc2''"
    "contextType (analyst 1 None) = ''both''"
    by (simp_all add: analyst_def)
  have f: "find (\<lambda>a. id_agent a = 1) (agents ?w) = Some (analyst 1 None)"
    by (simp add: example_defs)
  have v: "prompt (analyst 1 None) = ''Summarize the key points.''"
      "model (analyst 1 None) = ''gemini-2.5-flash''" "maxTokens (analyst 1 None) = 500"
      "doc1 ?w = ''A''" "doc2 ?w = ''B''" "apiKey ?w = ''key''"
    by (simp_all add: example_defs)
  note t1 = context_resolution [of "analyst 1 None\<lparr>contextType := ''doc1''\<rparr>" "''A''" "''B''"
      1 ?w answers_nothing ?w]
  note t2 = context_resolution [of "analyst 1 None\<lparr>contextType := ''doc2''\<rparr>" "''A''" "''B''"
      1 ?w answers_nothing ?w]
  note t3 = context_resolution [of "analyst 1 None" "''A''" "''B''" 1 ?w answers_nothing ?w]
  have r1: "resolveContext (analyst 1 None\<lparr>contextType := ''doc1''\<rparr>) ''A'' ''B'' = ''A''"
    using t1 c by blast
  have r2: "resolveContext (analyst 1 None\<lparr>contextType := ''doc2''\<rparr>) ''A'' ''B'' = ''B''"
    using t2 c by blast
  have r3: "resolveContext (analyst 1 None) ''A'' ''B''
        = ''Document 1:'' @ NL @ ''A'' @ NL @ NL @ ''Document 2:'' @ NL @ ''B''"
    using t3 c by blast
  have "Invoked (prompt (analyst 1 None)) (model (analyst 1 None)) (maxTokens (analyst 1 None))
          (resolveContext (analyst 1 None) (doc1 ?w) (doc2 ?w)) (Some (apiKey ?w))
          \<in> set (trace (handleRunAgent answers_nothing ?w 1 ?w))"
    using t3 f by blast
  then have r4: "Invoked ''Summarize the key points.'' ''gemini-2.5-flash'' 500
        (''Document 1:'' @ NL @ ''A'' @ NL @ NL @ ''Document 2:'' @ NL @ ''B'') (Some ''key'')
        \<in> set (trace (handleRunAgent answers_nothing ?w 1 ?w))"
    unfolding v r3 .
  show ?thesis using c f r1 r2 r3 r4 by blast
qed


section \<open>Importing agents\<close>

text \<open>
  C5. When the loaded value is not a sequence, \<^verbatim>\<open>uploadAgents\<close> sets the error
  \<open>''Invalid YAML format: Expected a list of agents.''\<close> and changes nothing else, so the
  agents are as before; when it is a sequence, the agents become exactly that sequence
  (each record as loaded) and the error is cleared.
\<close>

theorem import_replaces_or_rejects:
  "(yaml_load content = Inr loaded \<and> \<not> isArray loaded \<longrightarrow>
      uploadAgents yaml_load (Some content) st
        = st\<lparr>error := Some ''Invalid YAML format: Expected a list of agents.''\<rparr>
      \<and> agents (uploadAgents yaml_load (Some content) st) = agents st)
   \<and> (yaml_load content = Inr (YSeq xs) \<longrightarrow>
      uploadAgents yaml_load (Some content) st = st\<lparr>agents := xs, error := None\<rparr>
      \<and> agents (uploadAgents yaml_load (Some content) st) = xs)"
  by (simp add: uploadAgents_def)

theorem import_replaces_or_rejects_witness:
  "(\<lambda>c. Inr (YMap [(''agents'', ''none'')])) ''agents: none'' = Inr (YMap [(''agents'', ''none'')])
   \<and> \<not> isArray (YMap [(''agents'', ''none'')])
   \<and> agents (uploadAgents (\<lambda>c. Inr (YMap [(''agents'', ''none'')])) (Some ''agents: none'')
        (workspace [analyst 1 (Some ''old'')])) = [analyst 1 (Some ''old'')]
   \<and> error (uploadAgents (\<lambda>c. Inr (YMap [(''agents'', ''none'')])) (Some ''agents: none'')
        (workspace [analyst 1 (Some ''old'')]))
       = Some ''Invalid YAML format: Expected a list of agents.''
   \<and> (\<lambda>c. Inr (YSeq [analyst 7 None, analyst 9 (Some ''kept'')])) ''- id: 7''
       = Inr (YSeq [analyst 7 None, analyst 9 (Some ''kept'')])
   \<and> agents (uploadAgents (\<lambda>c. Inr (YSeq [analyst 7 None, analyst 9 (Some ''kept'')]))
        (Some ''- id: 7'') (workspace [analyst 1 (Some ''old'')]))
       = [analyst 7 None, analyst 9 (Some ''kept'')]
   \<and> error (uploadAgents (\<lambda>c. Inr (YSeq [analyst 7 None, analyst 9 (Some ''kept'')]))
        (Some ''- id: 7'') (workspace [analyst 1 (Some ''old'')])) = None"
proof -
  let ?w = "workspace [analyst 1 (Some ''old'')]"
  let ?m = "\<lambda>c::string. (Inr (YMap [(''agents'', ''none'')]) :: string + yaml)"
  let ?s = "\<lambda>c::string. (Inr (YSeq [analyst 7 None, analyst 9 (Some ''kept'')]) :: string + yaml)"
  note t1 = import_replaces_or_rejects [of ?m "''agents: none''" "YMap [(''agents'', ''none'')]"
      ?w "[]"]
  note t2 = import_replaces_or_rejects [of ?s "''- id: 7''" "YSeq [analyst 7 None, analyst 9 (Some ''kept'')]"
      ?w "[analyst 7 None, analyst 9 (Some ''kept'')]"]
  have a: "agents ?w = [analyst 1 (Some ''old'')]" by (simp add: workspace_def)
  have n: "\<not> isArray (YMap [(''agents'', ''none'')])" by simp
  have e1: "uploadAgents ?m (Some ''agents: none'') ?w
       = ?w\<lparr>error := Some ''Invalid YAML format: Expected a list of agents.''\<rparr>"
    and a1: "agents (uploadAgents ?m (Some ''agents: none'') ?w) = agents ?w"
    using t1 n by simp_all
  have e2: "uploadAgents ?s (Some ''- id: 7'') ?w
       = ?w\<lparr>agents := [analyst 7 None, analyst 9 (Some ''kept'')], error := None\<rparr>"
    using t2 by simp
  show ?thesis
    using n a a1 by (simp add: e1 e2)
qed

section \<open>The call made by a run\<close>

text \<open>
  C7, as the code has it. A run of a found agent calls \<^verbatim>\<open>runGeminiAgent\<close> exactly once,
  with the prompt, the model and \<^verbatim>\<open>maxTokens\<close> of the agent, the resolved context and the
  key. When a key is available (in the settings or in the environment) that call sends
  exactly one request to the hosted model: its contents are the context and the prompt
  under the labels \<open>Context:\<close> and \<open>Task:\<close>, its \<^verbatim>\<open>maxOutputTokens\<close> is the
  \<^verbatim>\<open>maxTokens\<close> of the agent, and its model is the model of the agent, except that
  \<open>gemini-2.5-flash-thinking\<close> is sent as \<open>gemini-2.5-flash\<close> with a thinking budget of
  1024. When no key is available no request is sent, and the run ends with the error
  \<open>API Key is missing. Please provide it in settings or environment.\<close>
\<close>

theorem run_invokes_model_once:
  assumes "find (\<lambda>a. id_agent a = i) (agents cl) = Some agent"
  shows "\<exists>res. trace (handleRunAgent W cl i st) =
            trace st
            @ [Invoked (prompt agent) (model agent) (maxTokens agent)
                 (resolveContext agent (doc1 cl) (doc2 cl)) (Some (apiKey cl))]
            @ (if apiKey cl \<noteq> [] \<or> truthy (env_API_KEY W)
               then [Requested
                      \<lparr>req_model = (if model agent = ''gemini-2.5-flash-thinking''
                                    then ''gemini-2.5-flash'' else model agent),
                       req_contents = ''Context:'' @ NL @ resolveContext agent (doc1 cl) (doc2 cl)
                                      @ NL @ NL @ ''Task:'' @ NL @ prompt agent,
                       req_maxOutputTokens = maxTokens agent,
                       req_thinkingConfig = (if model agent = ''gemini-2.5-flash-thinking''
                                             then Some 1024 else None)\<rparr>]
               else [])
            @ [Settled res]
          \<and> (apiKey cl = [] \<and> \<not> truthy (env_API_KEY W)
              \<longrightarrow> res = Inl ''API Key is missing. Please provide it in settings or environment.''
                \<and> error (handleRunAgent W cl i st)
                    = Some ''API Key is missing. Please provide it in settings or environment.'')"
proof -
  define run where "run = runGeminiAgent W (prompt agent) (model agent) (maxTokens agent)
           (resolveContext agent (doc1 cl) (doc2 cl)) (Some (apiKey cl)) (trace st)"
  have r: "runGeminiAgent W (prompt agent) (model agent) (maxTokens agent)
           (resolveContext agent (doc1 cl) (doc2 cl)) (Some (apiKey cl)) (trace st)
           = (fst run, snd run)"
    by (simp add: run_def)
  note h = handleRunAgent_found[OF assms r]
  have t: "trace (handleRunAgent W cl i st) = snd run"
    by (simp add: h)
  have e: "error (handleRunAgent W cl i st) = (case fst run of Inl m \<Rightarrow> Some m | Inr r \<Rightarrow> None)"
    by (simp add: h)
  have k: "fst run = Inl ''API Key is missing. Please provide it in settings or environment.''"
    if "apiKey cl = []" "\<not> truthy (env_API_KEY W)"
    unfolding run_def using that by (rule runGeminiAgent_keyless)
  show ?thesis
    apply (rule exI[of _ "fst run"])
    unfolding t
    apply (rule conjI)
     apply (unfold run_def, rule runGeminiAgent_block)
    apply (fold run_def)
    using k e apply simp
    done
qed

theorem run_invokes_model_once_witness:
  "find (\<lambda>a. id_agent a = 1) (agents (workspace [analyst 1 None])) = Some (analyst 1 None)
   \<and> (\<exists>res. trace (handleRunAgent second_request_fails (workspace [analyst 1 None]) 1
                (workspace [analyst 1 None])) =
         [Invoked ''Summarize the key points.'' ''gemini-2.5-flash'' 500
            (''Document 1:'' @ NL @ ''A'' @ NL @ NL @ ''Document 2:'' @ NL @ ''B'') (Some ''key''),
          Requested \<lparr>req_model = ''gemini-2.5-flash'',
            req_contents = ''Context:'' @ NL @ ''Document 1:'' @ NL @ ''A'' @ NL @ NL
               @ ''Document 2:'' @ NL @ ''B'' @ NL @ NL @ ''Task:'' @ NL
               @ ''Summarize the key points.'',
            req_maxOutputTokens = 500, req_thinkingConfig = None\<rparr>,
          Settled res])
   \<and> find (\<lambda>a. id_agent a = 1) (agents (keyless_workspace [analyst 1 None]))
       = Some (analyst 1 None)
   \<and> trace (handleRunAgent second_request_fails (keyless_workspace [analyst 1 None]) 1
        (keyless_workspace [analyst 1 None])) =
       [Invoked ''Summarize the key points.'' ''gemini-2.5-flash'' 500
          (''Document 1:'' @ NL @ ''A'' @ NL @ NL @ ''Document 2:'' @ NL @ ''B'') (Some []),
        Settled (Inl ''API Key is missing. Please provide it in settings or environment.'')]
   \<and> error (handleRunAgent second_request_fails (keyless_workspace [analyst 1 None]) 1
        (keyless_workspace [analyst 1 None]))
       = Some ''API Key is missing. Please provide it in settings or environment.''"
proof -
  let ?a = "analyst 1 None"
  let ?w = "workspace [?a]"
  let ?k = "keyless_workspace [?a]"
  have f: "find (\<lambda>a. id_agent a = 1) (agents ?w) = Some ?a"
    "find (\<lambda>a. id_agent a = 1) (agents ?k) = Some ?a"
    by (simp_all add: example_defs)
  have v: "prompt ?a = ''Summarize the key points.''"
      "model ?a = ''gemini-2.5-flash''" "maxTokens ?a = 500"
      "resolveContext ?a (doc1 ?w) (doc2 ?w)
         = ''Document 1:'' @ NL @ ''A'' @ NL @ NL @ ''Document 2:'' @ NL @ ''B''"
      "resolveContext ?a (doc1 ?k) (doc2 ?k)
         = ''Document 1:'' @ NL @ ''A'' @ NL @ NL @ ''Document 2:'' @ NL @ ''B''"
      "apiKey ?w = ''key''" "apiKey ?k = []" "trace ?w = []" "trace ?k = []"
    by (simp_all add: example_defs resolveContext_def)
  have nt: "truthy (env_API_KEY second_request_fails) = False"
    by (simp add: example_defs truthy_def)
  from run_invokes_model_once [OF f(1), of second_request_fails ?w]
  have a: "\<exists>res. trace (handleRunAgent second_request_fails ?w 1 ?w) =
         [Invoked ''Summarize the key points.'' ''gemini-2.5-flash'' 500
            (''Document 1:'' @ NL @ ''A'' @ NL @ NL @ ''Document 2:'' @ NL @ ''B'') (Some ''key''),
          Requested \<lparr>req_model = ''gemini-2.5-flash'',
            req_contents = ''Context:'' @ NL @ ''Document 1:'' @ NL @ ''A'' @ NL @ NL
               @ ''Document 2:'' @ NL @ ''B'' @ NL @ NL @ ''Task:'' @ NL
               @ ''Summarize the key points.'',
            req_maxOutputTokens = 500, req_thinkingConfig = None\<rparr>,
          Settled res]"
    unfolding v nt by simp
  from run_invokes_model_once [OF f(2), of second_request_fails ?k]
  have b: "trace (handleRunAgent second_request_fails ?k 1 ?k) =
       [Invoked ''Summarize the key points.'' ''gemini-2.5-flash'' 500
          (''Document 1:'' @ NL @ ''A'' @ NL @ NL @ ''Document 2:'' @ NL @ ''B'') (Some []),
        Settled (Inl ''API Key is missing. Please provide it in settings or environment.'')]"
    "error (handleRunAgent second_request_fails ?k 1 ?k)
       = Some ''API Key is missing. Please provide it in settings or environment.''"
    unfolding v nt by auto
  show ?thesis using f a b by blast
qed

text \<open>
  C7, as it is stated, fails: a run of a found agent does not always send a request to the
  hosted model, and a request does not always carry the model of the agent. Without a key
  the run of a found agent sends no request; and for an agent whose model is
  \<open>gemini-2.5-flash-thinking\<close> the one request names the model \<open>gemini-2.5-flash\<close>.
\<close>

theorem run_without_key_sends_no_request:
  "find (\<lambda>a. id_agent a = 1) (agents (keyless_workspace [analyst 1 None]))
       = Some (analyst 1 None)
   \<and> env_API_KEY every_request_fails = None
   \<and> apiKey (keyless_workspace [analyst 1 None]) = []
   \<and> trace (handleRunAgent every_request_fails (keyless_workspace [analyst 1 None]) 1
        (keyless_workspace [analyst 1 None])) =
       [Invoked ''Summarize the key points.'' ''gemini-2.5-flash'' 500
          (''Document 1:'' @ NL @ ''A'' @ NL @ NL @ ''Document 2:'' @ NL @ ''B'') (Some []),
        Settled (Inl ''API Key is missing. Please provide it in settings or environment.'')]
   \<and> filter is_Requested
        (trace (handleRunAgent every_request_fails (keyless_workspace [analyst 1 None]) 1
           (keyless_workspace [analyst 1 None]))) = []
   \<and> model ((analyst 1 None)\<lparr>model := ''gemini-2.5-flash-thinking''\<rparr>)
       = ''gemini-2.5-flash-thinking''
   \<and> filter is_Requested
        (trace (handleRunAgent second_request_fails
           (workspace [(analyst 1 None)\<lparr>model := ''gemini-2.5-flash-thinking''\<rparr>]) 1
           (workspace [(analyst 1 None)\<lparr>model := ''gemini-2.5-flash-thinking''\<rparr>]))) =
       [Requested \<lparr>req_model = ''gemini-2.5-flash'',
          req_contents = ''Context:'' @ NL @ ''Document 1:'' @ NL @ ''A'' @ NL @ NL
             @ ''Document 2:'' @ NL @ ''B'' @ NL @ NL @ ''Task:'' @ NL
             @ ''Summarize the key points.'',
          req_maxOutputTokens = 500, req_thinkingConfig = Some 1024\<rparr>]"
  by (simp add: example_defs run_defs handleRunAgent_def)

section \<open>The stored output is not empty\<close>

text \<open>
  C10. When the call of \<^verbatim>\<open>runGeminiAgent\<close> for a found agent succeeds, the string it
  returns is not empty and is stored as the output of every agent with that id; it is the
  text of a response of the hosted model when that is a non-empty string, and
  \<open>''No output generated.''\<close> otherwise. And whenever a key is available and the hosted model
  resolves, the call succeeds: when the text of the response is absent or empty it returns
  \<open>''No output generated.''\<close>, otherwise the text; what it returns is not empty and is stored
  as the output of every agent with that id, and no error is set.
\<close>

theorem stored_output_nonempty:
  assumes "find (\<lambda>a. id_agent a = i) (agents cl) = Some agent"
  shows "(runGeminiAgent W (prompt agent) (model agent) (maxTokens agent)
            (resolveContext agent (doc1 cl) (doc2 cl)) (Some (apiKey cl)) (trace st) = (Inr r, tr)
          \<longrightarrow> r \<noteq> []
            \<and> agents (handleRunAgent W cl i st) =
                map (\<lambda>a. if id_agent a = i
                          then a\<lparr>isLoading := False, output_agent := Some r\<rparr> else a)
                  (agents st)
            \<and> (\<exists>ai resp. getClient W (Some (apiKey cl)) = Inr ai
                  \<and> generateContent W (requests_before (trace st)) ai
                      (agent_request (prompt agent) (model agent) (maxTokens agent)
                         (resolveContext agent (doc1 cl) (doc2 cl))) = Resolved resp
                  \<and> r = (if resp = None \<or> resp = Some [] then ''No output generated.''
                         else the resp)))
       \<and> (getClient W (Some (apiKey cl)) = Inr ai
            \<and> generateContent W (requests_before (trace st)) ai
                 (agent_request (prompt agent) (model agent) (maxTokens agent)
                    (resolveContext agent (doc1 cl) (doc2 cl))) = Resolved resp
          \<longrightarrow> fst (runGeminiAgent W (prompt agent) (model agent) (maxTokens agent)
                   (resolveContext agent (doc1 cl) (doc2 cl)) (Some (apiKey cl)) (trace st))
                = Inr (if resp = None \<or> resp = Some [] then ''No output generated.'' else the resp)
            \<and> (if resp = None \<or> resp = Some [] then ''No output generated.'' else the resp) \<noteq> []
            \<and> agents (handleRunAgent W cl i st) =
                map (\<lambda>a. if id_agent a = i
                          then a\<lparr>isLoading := False,
                                 output_agent :=
                                   Some (if resp = None \<or> resp = Some [] then ''No output generated.'' else the resp)\<rparr>
                          else a)
                  (agents st)
            \<and> error (handleRunAgent W cl i st) = None)"
proof -
  have tr: "truthy t \<longleftrightarrow> \<not> (t = None \<or> t = Some [])" for t
    by (cases t) (simp_all add: truthy_def)
  have a: "r \<noteq> [] \<and> agents (handleRunAgent W cl i st) =
                map (\<lambda>a. if id_agent a = i
                          then a\<lparr>isLoading := False, output_agent := Some r\<rparr> else a)
                  (agents st)
            \<and> (\<exists>ai resp. getClient W (Some (apiKey cl)) = Inr ai
                  \<and> generateContent W (requests_before (trace st)) ai
                      (agent_request (prompt agent) (model agent) (maxTokens agent)
                         (resolveContext agent (doc1 cl) (doc2 cl))) = Resolved resp
                  \<and> r = (if resp = None \<or> resp = Some [] then ''No output generated.''
                         else the resp))"
    if r: "runGeminiAgent W (prompt agent) (model agent) (maxTokens agent)
            (resolveContext agent (doc1 cl) (doc2 cl)) (Some (apiKey cl)) (trace st) = (Inr r, tr)"
  proof -
    from runGeminiAgent_success(2)[OF r]
    obtain ai resp where "getClient W (Some (apiKey cl)) = Inr ai"
      "generateContent W (requests_before (trace st)) ai
         (agent_request (prompt agent) (model agent) (maxTokens agent)
            (resolveContext agent (doc1 cl) (doc2 cl))) = Resolved resp"
      "r = (if resp = None \<or> resp = Some [] then ''No output generated.'' else the resp)"
      unfolding tr by auto
    then have "\<exists>ai resp. getClient W (Some (apiKey cl)) = Inr ai
                  \<and> generateContent W (requests_before (trace st)) ai
                      (agent_request (prompt agent) (model agent) (maxTokens agent)
                         (resolveContext agent (doc1 cl) (doc2 cl))) = Resolved resp
                  \<and> r = (if resp = None \<or> resp = Some [] then ''No output generated.''
                         else the resp)"
      by blast
    then show ?thesis
      using runGeminiAgent_success(1)[OF r] by (simp add: handleRunAgent_found[OF assms r])
  qed
  have b: "fst (runGeminiAgent W (prompt agent) (model agent) (maxTokens agent)
                   (resolveContext agent (doc1 cl) (doc2 cl)) (Some (apiKey cl)) (trace st))
                = Inr (if resp = None \<or> resp = Some [] then ''No output generated.'' else the resp)
            \<and> (if resp = None \<or> resp = Some [] then ''No output generated.'' else the resp) \<noteq> []
            \<and> agents (handleRunAgent W cl i st) =
                map (\<lambda>a. if id_agent a = i
                          then a\<lparr>isLoading := False,
                                 output_agent :=
                                   Some (if resp = None \<or> resp = Some [] then ''No output generated.'' else the resp)\<rparr>
                          else a)
                  (agents st)
            \<and> error (handleRunAgent W cl i st) = None"
    if k: "getClient W (Some (apiKey cl)) = Inr ai"
      and g: "generateContent W (requests_before (trace st)) ai
                 (agent_request (prompt agent) (model agent) (maxTokens agent)
                    (resolveContext agent (doc1 cl) (doc2 cl))) = Resolved resp"
  proof -
    have e: "the (js_or resp (Some ''No output generated.''))
               = (if resp = None \<or> resp = Some [] then ''No output generated.'' else the resp)"
      by (simp add: js_or_def tr)
    note r = runGeminiAgent_resolved[OF k g, unfolded e]
    have "(if resp = None \<or> resp = Some [] then ''No output generated.'' else the resp) \<noteq> []"
      using placeholder_nonempty[of resp] unfolding e .
    then show ?thesis
      using r by (simp add: handleRunAgent_found[OF assms r])
  qed
  show ?thesis using a b by blast
qed

theorem stored_output_nonempty_witness:
  "find (\<lambda>a. id_agent a = 1) (agents (workspace [analyst 1 None])) = Some (analyst 1 None)
   \<and> getClient answers_nothing (Some (apiKey (workspace [analyst 1 None]))) = Inr ''key''
   \<and> getClient answers_empty (Some (apiKey (workspace [analyst 1 None]))) = Inr ''key''
   \<and> generateContent answers_nothing (requests_before (trace (workspace [analyst 1 None]))) ''key''
        (agent_request (prompt (analyst 1 None)) (model (analyst 1 None))
           (maxTokens (analyst 1 None))
           (resolveContext (analyst 1 None) (doc1 (workspace [analyst 1 None]))
              (doc2 (workspace [analyst 1 None])))) = Resolved None
   \<and> generateContent answers_empty (requests_before (trace (workspace [analyst 1 None]))) ''key''
        (agent_request (prompt (analyst 1 None)) (model (analyst 1 None))
           (maxTokens (analyst 1 None))
           (resolveContext (analyst 1 None) (doc1 (workspace [analyst 1 None]))
              (doc2 (workspace [analyst 1 None])))) = Resolved (Some [])
   \<and> generateContent second_request_fails (requests_before (trace (workspace [analyst 1 None])))
        ''key''
        (agent_request (prompt (analyst 1 None)) (model (analyst 1 None))
           (maxTokens (analyst 1 None))
           (resolveContext (analyst 1 None) (doc1 (workspace [analyst 1 None]))
              (doc2 (workspace [analyst 1 None])))) = Resolved (Some ''ok'')
   \<and> agents (handleRunAgent answers_nothing (workspace [analyst 1 None]) 1
        (workspace [analyst 1 None])) = [analyst 1 (Some ''No output generated.'')]
   \<and> agents (handleRunAgent answers_empty (workspace [analyst 1 None]) 1
        (workspace [analyst 1 None])) = [analyst 1 (Some ''No output generated.'')]
   \<and> agents (handleRunAgent second_request_fails (workspace [analyst 1 None]) 1
        (workspace [analyst 1 None])) = [analyst 1 (Some ''ok'')]
   \<and> fst (runGeminiAgent second_request_fails (prompt (analyst 1 None)) (model (analyst 1 None))
        (maxTokens (analyst 1 None))
        (resolveContext (analyst 1 None) (doc1 (workspace [analyst 1 None]))
           (doc2 (workspace [analyst 1 None])))
        (Some (apiKey (workspace [analyst 1 None]))) (trace (workspace [analyst 1 None])))
       = Inr ''ok''
   \<and> ''ok'' \<noteq> []"
proof -
  let ?a = "analyst 1 None"
  let ?w = "workspace [?a]"
  let ?q = "agent_request (prompt ?a) (model ?a) (maxTokens ?a)
              (resolveContext ?a (doc1 ?w) (doc2 ?w))"
  let ?run = "runGeminiAgent second_request_fails (prompt ?a) (model ?a) (maxTokens ?a)
        (resolveContext ?a (doc1 ?w) (doc2 ?w)) (Some (apiKey ?w)) (trace ?w)"
  have f: "find (\<lambda>a. id_agent a = 1) (agents ?w) = Some ?a"
    by (simp add: example_defs)
  have k: "getClient answers_nothing (Some (apiKey ?w)) = Inr ''key''"
    "getClient answers_empty (Some (apiKey ?w)) = Inr ''key''"
    "getClient second_request_fails (Some (apiKey ?w)) = Inr ''key''"
    by (simp_all add: example_defs run_defs)
  have g: "generateContent answers_nothing (requests_before (trace ?w)) ''key'' ?q = Resolved None"
    "generateContent answers_empty (requests_before (trace ?w)) ''key'' ?q = Resolved (Some [])"
    "generateContent second_request_fails (requests_before (trace ?w)) ''key'' ?q
       = Resolved (Some ''ok'')"
    by (simp_all add: example_defs requests_before_def)
  have m: "map (\<lambda>a. if id_agent a = 1 then a\<lparr>isLoading := False, output_agent := Some s\<rparr> else a)
             (agents ?w) = [analyst 1 (Some s)]" for s
    by (simp add: example_defs)
  note t1 = stored_output_nonempty [OF f, of answers_nothing ?w _ _ "''key''" None]
  note t2 = stored_output_nonempty [OF f, of answers_empty ?w _ _ "''key''" "Some []"]
  note t3 = stored_output_nonempty [OF f, of second_request_fails ?w "''ok''" "snd ?run"
      "''key''" "Some ''ok''"]
  have a1: "agents (handleRunAgent answers_nothing ?w 1 ?w) = [analyst 1 (Some ''No output generated.'')]"
    using t1 k(1) g(1) by (simp add: m truthy_def)
  have a2: "agents (handleRunAgent answers_empty ?w 1 ?w) = [analyst 1 (Some ''No output generated.'')]"
    using t2 k(2) g(2) by (simp add: m truthy_def)
  have r3: "fst ?run = Inr ''ok''"
    using t3 k(3) g(3) by (simp add: truthy_def)
  then have "?run = (Inr ''ok'', snd ?run)" by (simp add: prod_eq_iff)
  then have a3: "agents (handleRunAgent second_request_fails ?w 1 ?w) = [analyst 1 (Some ''ok'')]"
    "''ok'' \<noteq> []"
    using t3 by (simp_all add: m)
  show ?thesis using f k(1,2) g a1 a2 a3 r3 by blast
qed

section \<open>Running all agents\<close>

text \<open>
  C4, as the code has it. \<^verbatim>\<open>handleRunAllAgents\<close> goes through the stored list in order,
  and for every entry makes one call of \<^verbatim>\<open>runGeminiAgent\<close>, each call settling (resolved
  or rejected) before the next one starts: a failure does not end the batch. The call made
  for an entry is the one of the first agent of the list with the id of the entry; when the
  ids are distinct this is the entry itself, so that every agent is attempted once, in the
  stored order. At the end no agent is loading. For agents \<open>[A, B, C]\<close> with distinct ids
  and a key, where the requests of \<open>A\<close> and \<open>C\<close> resolve and the request of \<open>B\<close> is
  rejected, \<open>A\<close> and \<open>C\<close> end with their non-empty outputs, \<open>B\<close> ends with the empty
  string as its output, none of the three is loading, and the error is the one the run of
  \<open>C\<close> left: none. (The \<^verbatim>\<open>await\<close> of the loop is the sequential composition of
  \<open>run_agents\<close>.)
\<close>

theorem batch_attempts_every_agent:
  "(\<exists>new. trace (handleRunAllAgents W st) = trace st @ new
         \<and> sequential new
         \<and> filter is_Invoked new =
             map (\<lambda>a. invocation st (the (find (\<lambda>b. id_agent b = id_agent a) (agents st))))
               (agents st)
         \<and> (distinct (map id_agent (agents st))
              \<longrightarrow> filter is_Invoked new = map (invocation st) (agents st)))
   \<and> (\<forall>b \<in> set (agents (handleRunAllAgents W st)). \<not> isLoading b)
   \<and> map id_agent (agents (handleRunAllAgents W st)) = map id_agent (agents st)
   \<and> (agents st = [A, B, C] \<and> distinct [id_agent A, id_agent B, id_agent C]
        \<and> getClient W (Some (apiKey st)) = Inr ai
        \<and> generateContent W (requests_before (trace st)) ai
             (agent_request (prompt A) (model A) (maxTokens A)
                (resolveContext A (doc1 st) (doc2 st))) = Resolved tA
        \<and> generateContent W (requests_before (trace st) + 1) ai
             (agent_request (prompt B) (model B) (maxTokens B)
                (resolveContext B (doc1 st) (doc2 st))) = Rejected msg
        \<and> generateContent W (requests_before (trace st) + 2) ai
             (agent_request (prompt C) (model C) (maxTokens C)
                (resolveContext C (doc1 st) (doc2 st))) = Resolved tC
      \<longrightarrow> agents (handleRunAllAgents W st) =
            [A\<lparr>isLoading := False,
               output_agent := Some (if truthy tA then the tA else ''No output generated.'')\<rparr>,
             B\<lparr>isLoading := False, output_agent := Some []\<rparr>,
             C\<lparr>isLoading := False,
               output_agent := Some (if truthy tC then the tC else ''No output generated.'')\<rparr>]
          \<and> (if truthy tA then the tA else ''No output generated.'') \<noteq> []
          \<and> (if truthy tC then the tC else ''No output generated.'') \<noteq> []
          \<and> error (handleRunAllAgents W st) = None)"
proof -
  from run_agents_calls[OF subset_refl, of W st st]
  obtain new where n: "trace (handleRunAllAgents W st) = trace st @ new" "sequential new"
    "filter is_Invoked new =
       map (\<lambda>a. invocation st (the (find (\<lambda>b. id_agent b = id_agent a) (agents st))))
         (agents st)"
    unfolding handleRunAllAgents_def by blast
  have "filter is_Invoked new = map (invocation st) (agents st)"
    if "distinct (map id_agent (agents st))"
    unfolding n(3) using find_distinct[OF that] by (intro map_cong) simp_all
  with n have g1: "\<exists>new. trace (handleRunAllAgents W st) = trace st @ new
         \<and> sequential new
         \<and> filter is_Invoked new =
             map (\<lambda>a. invocation st (the (find (\<lambda>b. id_agent b = id_agent a) (agents st))))
               (agents st)
         \<and> (distinct (map id_agent (agents st))
              \<longrightarrow> filter is_Invoked new = map (invocation st) (agents st))"
    by blast
  have g3: "map id_agent (agents (handleRunAllAgents W st)) = map id_agent (agents st)"
    by (simp add: handleRunAllAgents_def run_agents_ids)
  have g4: "agents (handleRunAllAgents W st) =
            [A\<lparr>isLoading := False,
               output_agent := Some (if truthy tA then the tA else ''No output generated.'')\<rparr>,
             B\<lparr>isLoading := False, output_agent := Some []\<rparr>,
             C\<lparr>isLoading := False,
               output_agent := Some (if truthy tC then the tC else ''No output generated.'')\<rparr>]
          \<and> (if truthy tA then the tA else ''No output generated.'') \<noteq> []
          \<and> (if truthy tC then the tC else ''No output generated.'') \<noteq> []
          \<and> error (handleRunAllAgents W st) = None"
    if ag: "agents st = [A, B, C]"
      and d: "distinct [id_agent A, id_agent B, id_agent C]"
      and key: "getClient W (Some (apiKey st)) = Inr ai"
      and gA: "generateContent W (requests_before (trace st)) ai
                 (agent_request (prompt A) (model A) (maxTokens A)
                    (resolveContext A (doc1 st) (doc2 st))) = Resolved tA"
      and gB: "generateContent W (requests_before (trace st) + 1) ai
                 (agent_request (prompt B) (model B) (maxTokens B)
                    (resolveContext B (doc1 st) (doc2 st))) = Rejected msg"
      and gC: "generateContent W (requests_before (trace st) + 2) ai
                 (agent_request (prompt C) (model C) (maxTokens C)
                    (resolveContext C (doc1 st) (doc2 st))) = Resolved tC"
  proof -
    have e: "the (js_or t (Some ''No output generated.''))
               = (if truthy t then the t else ''No output generated.'')" for t
      by (simp add: js_or_def)
    have "(if truthy t then the t else ''No output generated.'') \<noteq> []" for t
      using placeholder_nonempty[of t] unfolding e .
    then show ?thesis
      by (simp add: three_agents[OF ag d key gA gB gC] e)
  qed
  show ?thesis
    using g1 handleRunAllAgents_not_loading g3 g4 by blast
qed

theorem batch_attempts_every_agent_witness:
  "distinct (map id_agent (agents (workspace [analyst 1 None, analyst 2 None, analyst 3 None])))
   \<and> getClient second_request_fails
        (Some (apiKey (workspace [analyst 1 None, analyst 2 None, analyst 3 None]))) = Inr ''key''
   \<and> agents (handleRunAllAgents second_request_fails
        (workspace [analyst 1 None, analyst 2 None, analyst 3 None]))
       = [analyst 1 (Some ''ok''), analyst 2 (Some []), analyst 3 (Some ''ok'')]
   \<and> error (handleRunAllAgents second_request_fails
        (workspace [analyst 1 None, analyst 2 None, analyst 3 None])) = None
   \<and> map isLoading (agents (handleRunAllAgents second_request_fails
          (workspace [analyst 1 None, analyst 2 None, analyst 3 None]))) = [False, False, False]
   \<and> (\<exists>new. trace (handleRunAllAgents second_request_fails
                (workspace [analyst 1 None, analyst 2 None, analyst 3 None])) = new
          \<and> sequential new
          \<and> filter is_Invoked new =
              [Invoked ''Summarize the key points.'' ''gemini-2.5-flash'' 500
                 (''Document 1:'' @ NL @ ''A'' @ NL @ NL @ ''Document 2:'' @ NL @ ''B'')
                 (Some ''key''),
               Invoked ''Summarize the key points.'' ''gemini-2.5-flash'' 500
                 (''Document 1:'' @ NL @ ''A'' @ NL @ NL @ ''Document 2:'' @ NL @ ''B'')
                 (Some ''key''),
               Invoked ''Summarize the key points.'' ''gemini-2.5-flash'' 500
                 (''Document 1:'' @ NL @ ''A'' @ NL @ NL @ ''Document 2:'' @ NL @ ''B'')
                 (Some ''key'')])"
proof -
  let ?w = "workspace [analyst 1 None, analyst 2 None, analyst 3 None]"
  let ?W = second_request_fails
  let ?i = "Invoked ''Summarize the key points.'' ''gemini-2.5-flash'' 500
                 (''Document 1:'' @ NL @ ''A'' @ NL @ NL @ ''Document 2:'' @ NL @ ''B'')
                 (Some ''key'')"
  have d: "distinct (map id_agent (agents ?w))" by (simp add: example_defs)
  have d3: "distinct [id_agent (analyst 1 None), id_agent (analyst 2 None),
              id_agent (analyst 3 None)]"
    by (simp add: example_defs)
  have ag: "agents ?w = [analyst 1 None, analyst 2 None, analyst 3 None]"
    by (simp add: example_defs)
  have key: "getClient ?W (Some (apiKey ?w)) = Inr ''key''"
    by (simp add: example_defs run_defs)
  have n: "requests_before (trace ?w) = 0" by (simp add: example_defs run_defs)
  have g: "generateContent ?W (requests_before (trace ?w)) ''key'' qa = Resolved (Some ''ok'')"
      "generateContent ?W (requests_before (trace ?w) + 1) ''key'' qb = Rejected ''quota exceeded''"
      "generateContent ?W (requests_before (trace ?w) + 2) ''key'' qc = Resolved (Some ''ok'')"
    for qa qb qc
    by (simp_all add: n) (simp_all add: second_request_fails_def)
  note t = batch_attempts_every_agent [of ?W ?w "analyst 1 None" "analyst 2 None"
      "analyst 3 None" "''key''" "Some ''ok''" "''quota exceeded''" "Some ''ok''"]
  have u: "analyst 1 None\<lparr>isLoading := False, output_agent := Some ''ok''\<rparr> = analyst 1 (Some ''ok'')"
     "analyst 2 None\<lparr>isLoading := False, output_agent := Some []\<rparr> = analyst 2 (Some [])"
     "analyst 3 None\<lparr>isLoading := False, output_agent := Some ''ok''\<rparr> = analyst 3 (Some ''ok'')"
    by (simp_all add: analyst_def)
  have o: "(if truthy (Some ''ok'') then the (Some ''ok'') else ''No output generated.'') = ''ok''"
    by (simp add: truthy_def)
  from t ag d3 key g
  have r0: "agents (handleRunAllAgents ?W ?w) =
            [analyst 1 None\<lparr>isLoading := False,
               output_agent := Some (if truthy (Some ''ok'') then the (Some ''ok'')
                                     else ''No output generated.'')\<rparr>,
             analyst 2 None\<lparr>isLoading := False, output_agent := Some []\<rparr>,
             analyst 3 None\<lparr>isLoading := False,
               output_agent := Some (if truthy (Some ''ok'') then the (Some ''ok'')
                                     else ''No output generated.'')\<rparr>]"
    and e: "error (handleRunAllAgents ?W ?w) = None"
    by blast+
  have r: "agents (handleRunAllAgents ?W ?w)
       = [analyst 1 (Some ''ok''), analyst 2 (Some []), analyst 3 (Some ''ok'')]"
    using r0 unfolding o u .
  have "\<forall>b \<in> set (agents (handleRunAllAgents ?W ?w)). \<not> isLoading b"
    using t by blast
  then have l: "map isLoading (agents (handleRunAllAgents ?W ?w)) = [False, False, False]"
    by (simp add: r)
  have iv: "map (invocation ?w) (agents ?w) = [?i, ?i, ?i]"
    by (simp add: example_defs invocation_def resolveContext_def)
  have tw: "trace ?w = []" by (simp add: example_defs)
  from t d obtain new where "trace (handleRunAllAgents ?W ?w) = trace ?w @ new"
    "sequential new" "filter is_Invoked new = map (invocation ?w) (agents ?w)"
    by blast
  then have s: "\<exists>new. trace (handleRunAllAgents ?W ?w) = new \<and> sequential new
      \<and> filter is_Invoked new = [?i, ?i, ?i]"
    unfolding iv tw by simp
  show ?thesis using d key r e l s by blast
qed

text \<open>
  C4, as it is stated, fails. The output of the agent whose request is rejected does not
  stay as it was: it is written, to the empty string, whether the agent had no output or
  the output \<open>''old b''\<close> before the batch. And not every agent is attempted: a list with
  two agents of the same id can be imported, and the batch then calls the model twice with
  the prompt of the first and never with the prompt of the second.
\<close>

theorem failed_agent_output_is_overwritten:
  "map output_agent
      (agents (handleRunAllAgents second_request_fails
         (workspace [analyst 1 None, analyst 2 None, analyst 3 None])))
     = [Some ''ok'', Some [], Some ''ok'']
   \<and> output_agent (analyst 2 None) = None
   \<and> map output_agent
      (agents (handleRunAllAgents second_request_fails
         (workspace [analyst 1 (Some ''old a''), analyst 2 (Some ''old b''),
                     analyst 3 (Some ''old c'')])))
     = [Some ''ok'', Some [], Some ''ok'']
   \<and> uploadAgents
        (\<lambda>content. Inr (YSeq [analyst 1 None, (analyst 1 None)\<lparr>prompt := ''Translate.''\<rparr>]))
        (Some ''agents.yaml'') (workspace [])
       = workspace [analyst 1 None, (analyst 1 None)\<lparr>prompt := ''Translate.''\<rparr>]
   \<and> filter is_Invoked
        (trace (handleRunAllAgents second_request_fails
           (workspace [analyst 1 None, (analyst 1 None)\<lparr>prompt := ''Translate.''\<rparr>])))
       = [Invoked ''Summarize the key points.'' ''gemini-2.5-flash'' 500
            (''Document 1:'' @ NL @ ''A'' @ NL @ NL @ ''Document 2:'' @ NL @ ''B'') (Some ''key''),
          Invoked ''Summarize the key points.'' ''gemini-2.5-flash'' 500
            (''Document 1:'' @ NL @ ''A'' @ NL @ NL @ ''Document 2:'' @ NL @ ''B'') (Some ''key'')]"
proof -
  let ?W = second_request_fails
  have a: "map output_agent
      (agents (handleRunAllAgents ?W (workspace [analyst 1 x, analyst 2 y, analyst 3 z])))
     = [Some ''ok'', Some [], Some ''ok'']" for x y z
  proof -
    let ?w = "workspace [analyst 1 x, analyst 2 y, analyst 3 z]"
    have d3: "distinct [id_agent (analyst 1 x), id_agent (analyst 2 y), id_agent (analyst 3 z)]"
      by (simp add: example_defs)
    have ag: "agents ?w = [analyst 1 x, analyst 2 y, analyst 3 z]"
      by (simp add: example_defs)
    have key: "getClient ?W (Some (apiKey ?w)) = Inr ''key''"
      by (simp add: example_defs run_defs)
    have n: "requests_before (trace ?w) = 0" by (simp add: example_defs run_defs)
    have g: "generateContent ?W (requests_before (trace ?w)) ''key'' qa = Resolved (Some ''ok'')"
      "generateContent ?W (requests_before (trace ?w) + 1) ''key'' qb = Rejected ''quota exceeded''"
      "generateContent ?W (requests_before (trace ?w) + 2) ''key'' qc = Resolved (Some ''ok'')"
      for qa qb qc
      by (simp_all add: n) (simp_all add: second_request_fails_def)
    show ?thesis
      by (simp add: three_agents[OF ag d3 key g] js_or_def truthy_def)
  qed
  have b: "output_agent (analyst 2 None) = None" by (simp add: analyst_def)
  have c: "uploadAgents
        (\<lambda>content. Inr (YSeq [analyst 1 None, (analyst 1 None)\<lparr>prompt := ''Translate.''\<rparr>]))
        (Some ''agents.yaml'') (workspace [])
       = workspace [analyst 1 None, (analyst 1 None)\<lparr>prompt := ''Translate.''\<rparr>]"
    by (simp add: uploadAgents_def workspace_def)
  have e: "filter is_Invoked
        (trace (handleRunAllAgents ?W
           (workspace [analyst 1 None, (analyst 1 None)\<lparr>prompt := ''Translate.''\<rparr>])))
       = [Invoked ''Summarize the key points.'' ''gemini-2.5-flash'' 500
            (''Document 1:'' @ NL @ ''A'' @ NL @ NL @ ''Document 2:'' @ NL @ ''B'') (Some ''key''),
          Invoked ''Summarize the key points.'' ''gemini-2.5-flash'' 500
            (''Document 1:'' @ NL @ ''A'' @ NL @ NL @ ''Document 2:'' @ NL @ ''B'') (Some ''key'')]"
    by (simp add: example_defs run_defs handleRunAgent_def handleRunAllAgents_def run_agents_def)
  show ?thesis using a b c e by blast
qed

end
